theory Spec2Isabelle
  imports Complex_Main "HOL-Library.Word"
begin

unbundle bit_operations_syntax

section \<open>Conventions\<close>

text \<open>
  The development embeds the order-book replica (\<^verbatim>\<open>orderbook/pro_orderbook.py\<close>), the
  feature extractor (\<^verbatim>\<open>orderbook/microstructure_features.py\<close>), the kill switch
  (\<^verbatim>\<open>core/kill_switch.py\<close>), the pre-trade gate (\<^verbatim>\<open>core/risk_manager.py\<close>), the
  wall-riding tactic (\<^verbatim>\<open>strategies/tactical_strategies.py\<close>) and the message dispatch of
  \<^verbatim>\<open>core/websocket_streamer.py\<close>.

  Python floats are modelled by \<^typ>\<open>real\<close>: rounding error, infinities and NaN are outside
  the model. Python integers are \<^typ>\<open>int\<close>. Every read of the wall clock
  (\<^verbatim>\<open>datetime.now()\<close>) is an explicit argument, in seconds. Mutation of \<^verbatim>\<open>self\<close> is
  state passing; an exception is a value of type \<open>error\<close>.
\<close>

datatype error = ValueError | ZeroDivisionError | NameError | KeyError

section \<open>Library functions the source calls\<close>

subsection \<open>Formatting with \<^verbatim>\<open>:.0f\<close>\<close>

text \<open>Python rounds to the nearest integer, ties to even, and keeps the sign of a negative
  argument even when the digits are zero (\<^verbatim>\<open>f"{-0.4:.0f}" == "-0"\<close>).\<close>

definition round_half_even :: "real \<Rightarrow> int" where
  "round_half_even x =
     (let f = \<lfloor>x\<rfloor>; d = x - of_int f
      in if d < 1 / 2 then f else if 1 / 2 < d then f + 1 else if even f then f else f + 1)"

definition digit_char :: "nat \<Rightarrow> char" where
  "digit_char d = ''0123456789'' ! d"

fun str_nat :: "nat \<Rightarrow> string" where
  "str_nat n = (if n < 10 then [digit_char n] else str_nat (n div 10) @ [digit_char (n mod 10)])"

declare str_nat.simps [simp del]

definition fmt_0f :: "real \<Rightarrow> string" where
  "fmt_0f x = (if x < 0 then ''-'' else '''') @ str_nat (nat (round_half_even \<bar>x\<bar>))"

subsection \<open>\<^verbatim>\<open>zlib.crc32\<close>\<close>

text \<open>The reflected CRC-32 of zlib: polynomial \<open>0xEDB88320\<close>, initial value and final
  complement \<open>0xFFFFFFFF\<close>, one byte at a time, least significant bit first.\<close>

definition crc32_bit :: "32 word \<Rightarrow> 32 word" where
  "crc32_bit c = (if bit c 0 then drop_bit 1 c XOR 0xEDB88320 else drop_bit 1 c)"

definition crc32_byte :: "32 word \<Rightarrow> char \<Rightarrow> 32 word" where
  "crc32_byte c ch =
     crc32_bit (crc32_bit (crc32_bit (crc32_bit (crc32_bit (crc32_bit (crc32_bit (crc32_bit
       (c XOR of_nat (of_char ch)))))))))"

definition crc32 :: "string \<Rightarrow> 32 word" where
  "crc32 s = foldl crc32_byte 0xFFFFFFFF s XOR 0xFFFFFFFF"

subsection \<open>\<^verbatim>\<open>bisect.insort\<close> and \<^verbatim>\<open>list.remove\<close>\<close>

text \<open>\<^verbatim>\<open>bisect.insort\<close> inserts after the entries equal to the new one; the lists it is
  applied to are kept sorted by the replica. \<^verbatim>\<open>list.remove\<close> deletes the first occurrence
  (\<^const>\<open>remove1\<close>); its \<^verbatim>\<open>ValueError\<close> on a missing entry is swallowed by the source.\<close>

fun insort_right :: "real \<Rightarrow> real list \<Rightarrow> real list" where
  "insort_right x [] = [x]"
| "insort_right x (y # ys) = (if x < y then x # y # ys else y # insort_right x ys)"

section \<open>The order-book replica\<close>

record OrderBookLevel =
  price :: real
  size_l :: real
  orders_count :: int
  is_iceberg :: bool

record history_entry =
  h_price :: real
  h_size :: real
  h_time :: real

record OrderBookFeatures =
  best_bid :: real
  best_ask :: real
  mid_price :: real
  spread :: real
  spread_bps :: real
  bid_depth_5 :: real
  ask_depth_5 :: real
  ofi_1s :: real
  ofi_5s :: real
  wmp :: real
  liquidity_void_above :: "(real \<times> real) list"
  liquidity_void_below :: "(real \<times> real) list"
  buy_pressure :: real
  sell_pressure :: real
  has_wall :: bool
  wall_side :: string
  wall_price :: real
  wall_depth :: real

text \<open>The default value of the dataclass; the two void lists are \<^verbatim>\<open>None\<close> there and
  are always overwritten with lists before they are read.\<close>

definition default_features :: OrderBookFeatures where
  "default_features =
     \<lparr>best_bid = 0, best_ask = 0, mid_price = 0, spread = 0, spread_bps = 0,
      bid_depth_5 = 0, ask_depth_5 = 0, ofi_1s = 0, ofi_5s = 0, wmp = 0,
      liquidity_void_above = [], liquidity_void_below = [],
      buy_pressure = 0, sell_pressure = 0,
      has_wall = False, wall_side = '''', wall_price = 0, wall_depth = 0\<rparr>"

text \<open>The state of \<^verbatim>\<open>ProfessionalOrderBook\<close>. \<open>sorted_bids\<close> holds the negated bid prices
  in ascending order, as the source does. The fields \<^verbatim>\<open>inst_id\<close>, \<^verbatim>\<open>max_levels\<close> and
  \<^verbatim>\<open>last_check_time\<close> are never read by the methods below and are left out.\<close>

record order_book =
  bids :: "real \<rightharpoonup> OrderBookLevel"
  asks :: "real \<rightharpoonup> OrderBookLevel"
  sorted_bids :: "real list"
  sorted_asks :: "real list"
  sequence :: int
  checksum :: int
  bids_history :: "history_entry list"
  asks_history :: "history_entry list"
  features :: OrderBookFeatures
  update_count :: int
  error_count :: int

definition init_book :: order_book where
  "init_book =
     \<lparr>bids = Map.empty, asks = Map.empty, sorted_bids = [], sorted_asks = [],
      sequence = - 1, checksum = 0, bids_history = [], asks_history = [],
      features = default_features, update_count = 0, error_count = 0\<rparr>"

subsection \<open>Queries\<close>

definition get_bids :: "int \<Rightarrow> order_book \<Rightarrow> (real \<times> real) list" where
  "get_bids levels b =
     List.map_filter
       (\<lambda>np. case bids b (- np) of None \<Rightarrow> None | Some l \<Rightarrow> Some (- np, size_l l))
       (take (nat levels) (sorted_bids b))"

definition get_asks :: "int \<Rightarrow> order_book \<Rightarrow> (real \<times> real) list" where
  "get_asks levels b =
     List.map_filter
       (\<lambda>p. case asks b p of None \<Rightarrow> None | Some l \<Rightarrow> Some (p, size_l l))
       (take (nat levels) (sorted_asks b))"

definition get_best_bid :: "order_book \<Rightarrow> real \<times> real" where
  "get_best_bid b =
     (case sorted_bids b of
        [] \<Rightarrow> (0, 0)
      | np # _ \<Rightarrow> (case bids b (- np) of None \<Rightarrow> (0, 0) | Some l \<Rightarrow> (- np, size_l l)))"

definition get_best_ask :: "order_book \<Rightarrow> real \<times> real" where
  "get_best_ask b =
     (case sorted_asks b of
        [] \<Rightarrow> (0, 0)
      | p # _ \<Rightarrow> (case asks b p of None \<Rightarrow> (0, 0) | Some l \<Rightarrow> (p, size_l l)))"

definition get_mid_price :: "order_book \<Rightarrow> real" where
  "get_mid_price b =
     (let bid_price = fst (get_best_bid b); ask_price = fst (get_best_ask b)
      in if 0 < bid_price \<and> 0 < ask_price then (bid_price + ask_price) / 2
         else if 0 < bid_price then bid_price
         else if 0 < ask_price then ask_price
         else 0)"

definition get_wmp :: "order_book \<Rightarrow> real" where
  "get_wmp b =
     (let (bid_price, bid_size) = get_best_bid b; (ask_price, ask_size) = get_best_ask b
      in if bid_size = 0 \<and> ask_size = 0 then get_mid_price b
         else if ask_size + bid_size = 0 then get_mid_price b
         else (bid_price * ask_size + ask_price * bid_size) / (ask_size + bid_size))"

definition get_spread :: "order_book \<Rightarrow> real" where
  "get_spread b =
     (let bid_price = fst (get_best_bid b); ask_price = fst (get_best_ask b)
      in if 0 < bid_price \<and> 0 < ask_price then ask_price - bid_price else 0)"

definition get_spread_bps :: "order_book \<Rightarrow> real" where
  "get_spread_bps b =
     (let sp = get_spread b; mid = get_mid_price b
      in if 0 < mid then (sp / mid) * 10000 else 0)"

subsection \<open>The checksum\<close>

text \<open>The two loops of \<^verbatim>\<open>_calculate_checksum\<close> append \<^verbatim>\<open>f"{price:.0f}:{size:.0f}:"\<close> for
  each level; the string is ASCII, so its UTF-8 bytes are its characters. No step of the
  body raises on the values of the model, so the \<^verbatim>\<open>except\<close> branch is not reachable.\<close>

definition checksum_piece :: "real \<times> real \<Rightarrow> string" where
  "checksum_piece lv = fmt_0f (fst lv) @ '':'' @ fmt_0f (snd lv) @ '':''"

definition checksum_str :: "order_book \<Rightarrow> string" where
  "checksum_str b =
     foldl (\<lambda>s lv. s @ checksum_piece lv)
       (foldl (\<lambda>s lv. s @ checksum_piece lv) '''' (get_bids 25 b)) (get_asks 25 b)"

definition calculate_checksum :: "order_book \<Rightarrow> int" where
  "calculate_checksum b = uint (crc32 (checksum_str b) AND 0xFFFFFFFF)"

subsection \<open>Incremental updates\<close>

text \<open>An entry of the feed is a list \<^verbatim>\<open>[price, size, count?]\<close> of strings or numbers;
  \<open>Malformed\<close> stands for an entry on which \<^verbatim>\<open>float\<close>, \<^verbatim>\<open>int\<close> or the indexing raises,
  which happens before the entry changes the book.\<close>

datatype raw_level = Level real real "int option" | Malformed

record book_data =
  d_bids :: "raw_level list"
  d_asks :: "raw_level list"
  d_checksum :: int

definition mk_level :: "real \<Rightarrow> real \<Rightarrow> int option \<Rightarrow> OrderBookLevel" where
  "mk_level p s c =
     \<lparr>price = p, size_l = s, orders_count = (case c of None \<Rightarrow> 0 | Some n \<Rightarrow> n),
      is_iceberg = False\<rparr>"

definition incr_bid :: "order_book \<Rightarrow> real \<Rightarrow> real \<Rightarrow> int option \<Rightarrow> order_book" where
  "incr_bid b p s c =
     (if s = 0 then
        (if bids b p \<noteq> None
         then b\<lparr>bids := (bids b)(p := None), sorted_bids := remove1 (- p) (sorted_bids b)\<rparr>
         else b)
      else
        (let b' = (if bids b p = None
                   then b\<lparr>sorted_bids := insort_right (- p) (sorted_bids b)\<rparr> else b)
         in b'\<lparr>bids := (bids b')(p \<mapsto> mk_level p s c)\<rparr>))"

definition incr_ask :: "order_book \<Rightarrow> real \<Rightarrow> real \<Rightarrow> int option \<Rightarrow> order_book" where
  "incr_ask b p s c =
     (if s = 0 then
        (if asks b p \<noteq> None
         then b\<lparr>asks := (asks b)(p := None), sorted_asks := remove1 p (sorted_asks b)\<rparr>
         else b)
      else
        (let b' = (if asks b p = None
                   then b\<lparr>sorted_asks := insort_right p (sorted_asks b)\<rparr> else b)
         in b'\<lparr>asks := (asks b')(p \<mapsto> mk_level p s c)\<rparr>))"

text \<open>The two \<^verbatim>\<open>for\<close> loops: an exception leaves the loop with the entries before it
  applied.\<close>

fun incr_bids_loop :: "order_book \<Rightarrow> raw_level list \<Rightarrow> order_book \<times> error option" where
  "incr_bids_loop b [] = (b, None)"
| "incr_bids_loop b (Malformed # _) = (b, Some ValueError)"
| "incr_bids_loop b (Level p s c # ls) = incr_bids_loop (incr_bid b p s c) ls"

fun incr_asks_loop :: "order_book \<Rightarrow> raw_level list \<Rightarrow> order_book \<times> error option" where
  "incr_asks_loop b [] = (b, None)"
| "incr_asks_loop b (Malformed # _) = (b, Some ValueError)"
| "incr_asks_loop b (Level p s c # ls) = incr_asks_loop (incr_ask b p s c) ls"

definition update_increment :: "order_book \<Rightarrow> book_data \<Rightarrow> bool \<times> order_book" where
  "update_increment b d =
     (case incr_bids_loop b (d_bids d) of
        (b1, Some e) \<Rightarrow> (False, b1\<lparr>error_count := error_count b1 + 1\<rparr>)
      | (b1, None) \<Rightarrow>
          (case incr_asks_loop b1 (d_asks d) of
             (b2, Some e) \<Rightarrow> (False, b2\<lparr>error_count := error_count b2 + 1\<rparr>)
           | (b2, None) \<Rightarrow>
               if calculate_checksum b2 \<noteq> d_checksum d
               then (False, b2\<lparr>error_count := error_count b2 + 1\<rparr>)
               else (True, b2\<lparr>checksum := d_checksum d, update_count := update_count b2 + 1\<rparr>)))"


subsection \<open>Snapshots\<close>

text \<open>\<^verbatim>\<open>update_snapshot\<close> clears the book and inserts every entry of positive size; unlike
  the incremental path it does not look whether the price is already there before it extends
  the sorted list. \<open>update_count\<close> grows also when the checksum mismatches.\<close>

definition snap_bid :: "order_book \<Rightarrow> real \<Rightarrow> real \<Rightarrow> int option \<Rightarrow> order_book" where
  "snap_bid b p s c =
     (if 0 < s
      then b\<lparr>bids := (bids b)(p \<mapsto> mk_level p s c),
             sorted_bids := insort_right (- p) (sorted_bids b)\<rparr>
      else if bids b p \<noteq> None then b\<lparr>bids := (bids b)(p := None)\<rparr> else b)"

definition snap_ask :: "order_book \<Rightarrow> real \<Rightarrow> real \<Rightarrow> int option \<Rightarrow> order_book" where
  "snap_ask b p s c =
     (if 0 < s
      then b\<lparr>asks := (asks b)(p \<mapsto> mk_level p s c),
             sorted_asks := insort_right p (sorted_asks b)\<rparr>
      else if asks b p \<noteq> None then b\<lparr>asks := (asks b)(p := None)\<rparr> else b)"

fun snap_bids_loop :: "order_book \<Rightarrow> raw_level list \<Rightarrow> order_book \<times> error option" where
  "snap_bids_loop b [] = (b, None)"
| "snap_bids_loop b (Malformed # _) = (b, Some ValueError)"
| "snap_bids_loop b (Level p s c # ls) = snap_bids_loop (snap_bid b p s c) ls"

fun snap_asks_loop :: "order_book \<Rightarrow> raw_level list \<Rightarrow> order_book \<times> error option" where
  "snap_asks_loop b [] = (b, None)"
| "snap_asks_loop b (Malformed # _) = (b, Some ValueError)"
| "snap_asks_loop b (Level p s c # ls) = snap_asks_loop (snap_ask b p s c) ls"

definition update_snapshot :: "order_book \<Rightarrow> book_data \<Rightarrow> order_book" where
  "update_snapshot b d =
     (let b0 = b\<lparr>bids := Map.empty, asks := Map.empty, sorted_bids := [], sorted_asks := []\<rparr>
      in case snap_bids_loop b0 (d_bids d) of
           (b1, Some e) \<Rightarrow> b1\<lparr>error_count := error_count b1 + 1\<rparr>
         | (b1, None) \<Rightarrow>
             (case snap_asks_loop b1 (d_asks d) of
                (b2, Some e) \<Rightarrow> b2\<lparr>error_count := error_count b2 + 1\<rparr>
              | (b2, None) \<Rightarrow>
                  (let b3 = (if calculate_checksum b2 \<noteq> d_checksum d
                             then b2\<lparr>error_count := error_count b2 + 1\<rparr>
                             else b2\<lparr>checksum := d_checksum d\<rparr>)
                   in b3\<lparr>update_count := update_count b3 + 1\<rparr>)))"

text \<open>The prices of the entries of a message, and the snapshot of Scenario A.\<close>

fun level_prices :: "raw_level list \<Rightarrow> real list" where
  "level_prices [] = []"
| "level_prices (Malformed # ls) = level_prices ls"
| "level_prices (Level p s c # ls) = p # level_prices ls"

definition scenario_snapshot :: "int \<Rightarrow> book_data" where
  "scenario_snapshot k =
     \<lparr>d_bids = [Level 100 5 (Some 1), Level 99 3 (Some 1)],
      d_asks = [Level 101 2 (Some 1)], d_checksum = k\<rparr>"

text \<open>A snapshot with two entries for the bid price 100, and the book it leaves.\<close>

definition duplicate_snapshot :: book_data where
  "duplicate_snapshot =
     \<lparr>d_bids = [Level 100 5 (Some 1), Level 100 7 (Some 1), Level 99 3 (Some 1)],
      d_asks = [Level 101 2 (Some 1)], d_checksum = 0\<rparr>"

definition duplicate_book :: order_book where
  "duplicate_book = update_snapshot init_book duplicate_snapshot"

subsection \<open>The representation invariant\<close>

text \<open>Each sorted list holds exactly the keys of its dictionary (negated on the bid
  side), once each and in ascending order.\<close>

definition side_ok :: "real list \<Rightarrow> real set \<Rightarrow> bool" where
  "side_ok xs K = (sorted xs \<and> distinct xs \<and> set xs = K)"

definition book_ok :: "order_book \<Rightarrow> bool" where
  "book_ok b =
     (side_ok (sorted_bids b) (uminus ` dom (bids b)) \<and> side_ok (sorted_asks b) (dom (asks b)))"

subsection \<open>The levels the specification speaks of\<close>

text \<open>The best \<open>n\<close> bid levels by descending price and the best \<open>n\<close> ask levels by
  ascending price, read off the price maps alone.\<close>

definition top_bid_levels :: "nat \<Rightarrow> order_book \<Rightarrow> (real \<times> real) list" where
  "top_bid_levels n b =
     map (\<lambda>p. (p, size_l (the (bids b p)))) (take n (rev (sorted_list_of_set (dom (bids b)))))"

definition top_ask_levels :: "nat \<Rightarrow> order_book \<Rightarrow> (real \<times> real) list" where
  "top_ask_levels n b =
     map (\<lambda>p. (p, size_l (the (asks b p)))) (take n (sorted_list_of_set (dom (asks b))))"

text \<open>Python's \<^verbatim>\<open>sep.join(fields)\<close>.\<close>

fun join_sep :: "string \<Rightarrow> string list \<Rightarrow> string" where
  "join_sep sep [] = []"
| "join_sep sep [x] = x"
| "join_sep sep (x # y # ys) = x @ sep @ join_sep sep (y # ys)"

definition checksum_fields :: "order_book \<Rightarrow> string list" where
  "checksum_fields b =
     concat (map (\<lambda>lv. [fmt_0f (fst lv), fmt_0f (snd lv)])
       (top_bid_levels 25 b @ top_ask_levels 25 b))"

text \<open>What the specification says an incremental update does to one side, on the price
  map alone: size 0 removes the key, any other size inserts or overwrites.\<close>

fun apply_levels ::
  "(real \<rightharpoonup> OrderBookLevel) \<Rightarrow> raw_level list \<Rightarrow> (real \<rightharpoonup> OrderBookLevel)" where
  "apply_levels m [] = m"
| "apply_levels m (Malformed # _) = m"
| "apply_levels m (Level p s c # ls) =
     apply_levels (if s = 0 then m(p := None) else m(p \<mapsto> mk_level p s c)) ls"

text \<open>An incremental message that carries one bid entry, or one ask entry.\<close>

definition delta_bid :: "real \<Rightarrow> real \<Rightarrow> int option \<Rightarrow> int \<Rightarrow> book_data" where
  "delta_bid p s c k = \<lparr>d_bids = [Level p s c], d_asks = [], d_checksum = k\<rparr>"

definition delta_ask :: "real \<Rightarrow> real \<Rightarrow> int option \<Rightarrow> int \<Rightarrow> book_data" where
  "delta_ask p s c k = \<lparr>d_bids = [], d_asks = [Level p s c], d_checksum = k\<rparr>"

text \<open>Two books used as concrete inputs: the book of the specification's Scenario A
  (bids 100 and 99, one ask at 101), and a book whose ask side is empty.\<close>

definition scenario_book :: order_book where
  "scenario_book =
     init_book
       \<lparr>bids := [100 \<mapsto> mk_level 100 5 (Some 1), 99 \<mapsto> mk_level 99 3 (Some 1)],
        asks := [101 \<mapsto> mk_level 101 2 (Some 1)],
        sorted_bids := [- 100, - 99],
        sorted_asks := [101]\<rparr>"

definition bid_only_book :: order_book where
  "bid_only_book =
     init_book\<lparr>bids := [100 \<mapsto> mk_level 100 5 (Some 1)], sorted_bids := [- 100]\<rparr>"

subsection \<open>Order-flow imbalance and the feature record\<close>

text \<open>\<^verbatim>\<open>deque(maxlen=100).append\<close>: a full deque drops its oldest entry.\<close>

definition deque_append :: "'a list \<Rightarrow> 'a \<Rightarrow> 'a list" where
  "deque_append xs x = (if 100 \<le> length xs then tl xs @ [x] else xs @ [x])"

definition recent_entries :: "real \<Rightarrow> real \<Rightarrow> history_entry list \<Rightarrow> history_entry list" where
  "recent_entries window current_time h = filter (\<lambda>e. current_time - h_time e \<le> window) h"

text \<open>\<^verbatim>\<open>calculate_ofi\<close>, with the instant its \<^verbatim>\<open>datetime.now()\<close> returns. It records the
  best bid and ask in the two histories before it computes, so it changes the book.\<close>

definition calculate_ofi :: "order_book \<Rightarrow> real \<Rightarrow> string \<Rightarrow> real \<times> order_book" where
  "calculate_ofi b current_time timeframe =
     (let (bid_price, bid_size) = get_best_bid b;
          (ask_price, ask_size) = get_best_ask b;
          b' = b\<lparr>bids_history := deque_append (bids_history b)
                     \<lparr>h_price = bid_price, h_size = bid_size, h_time = current_time\<rparr>,
                 asks_history := deque_append (asks_history b)
                     \<lparr>h_price = ask_price, h_size = ask_size, h_time = current_time\<rparr>\<rparr>;
          window = (if timeframe = ''1s'' then 1 else 5);
          recent_bids = recent_entries window current_time (bids_history b');
          recent_asks = recent_entries window current_time (asks_history b')
      in if length recent_bids < 2 \<or> length recent_asks < 2 then (0, b')
         else ((h_size (last recent_bids) - h_size (hd recent_bids))
                 - (h_size (last recent_asks) - h_size (hd recent_asks)), b'))"

text \<open>The two scans of \<^verbatim>\<open>detect_liquidity_void\<close> over neighbouring levels; a level of price
  0 makes the ratio raise, and the method then returns the empty list.\<close>

fun gaps_above :: "real \<Rightarrow> (real \<times> real) list \<Rightarrow> error + (real \<times> real) list" where
  "gaps_above th (x # y # rest) =
     (if fst x = 0 then Inl ZeroDivisionError
      else (case gaps_above th (y # rest) of
              Inl e \<Rightarrow> Inl e
            | Inr vs \<Rightarrow> Inr (if th < (fst y - fst x) / fst x then (fst x, fst y) # vs else vs)))"
| "gaps_above th _ = Inr []"

fun gaps_below :: "real \<Rightarrow> (real \<times> real) list \<Rightarrow> error + (real \<times> real) list" where
  "gaps_below th (x # y # rest) =
     (if fst x = 0 then Inl ZeroDivisionError
      else (case gaps_below th (y # rest) of
              Inl e \<Rightarrow> Inl e
            | Inr vs \<Rightarrow> Inr (if th < (fst x - fst y) / fst x then (fst y, fst x) # vs else vs)))"
| "gaps_below th _ = Inr []"

definition detect_liquidity_void ::
  "order_book \<Rightarrow> string \<Rightarrow> real \<Rightarrow> int \<Rightarrow> (real \<times> real) list" where
  "detect_liquidity_void b direction threshold max_gap_levels =
     (case (if direction = ''above'' \<or> direction = ''both''
            then gaps_above threshold (get_asks 50 b) else Inr []) of
        Inl e \<Rightarrow> []
      | Inr va \<Rightarrow>
          (case (if direction = ''below'' \<or> direction = ''both''
                 then gaps_below threshold (get_bids 50 b) else Inr []) of
             Inl e \<Rightarrow> []
           | Inr vb \<Rightarrow> va @ vb))"

record wall_hit =
  w_side :: string
  w_price :: real
  w_depth :: real

definition detect_wall :: "order_book \<Rightarrow> real \<Rightarrow> int \<Rightarrow> wall_hit option" where
  "detect_wall b min_depth levels =
     (case find (\<lambda>(p, s). min_depth \<le> s) (get_bids levels b) of
        Some (p, s) \<Rightarrow> Some \<lparr>w_side = ''bid'', w_price = p, w_depth = s\<rparr>
      | None \<Rightarrow>
          (case find (\<lambda>(p, s). min_depth \<le> s) (get_asks levels b) of
             Some (p, s) \<Rightarrow> Some \<lparr>w_side = ''ask'', w_price = p, w_depth = s\<rparr>
           | None \<Rightarrow> None))"

text \<open>\<^verbatim>\<open>calculate_features\<close>, with the instants of the clock reads of its two calls of
  \<^verbatim>\<open>calculate_ofi\<close>. The result is also stored in \<^verbatim>\<open>self.features\<close>. No step raises past
  the handlers inside the methods it calls.\<close>

definition calculate_features ::
  "order_book \<Rightarrow> real \<Rightarrow> real \<Rightarrow> OrderBookFeatures \<times> order_book" where
  "calculate_features b t1 t2 =
     (let (o1, b1) = calculate_ofi b t1 ''1s'';
          (o5, b2) = calculate_ofi b1 t2 ''5s'';
          voids = detect_liquidity_void b2 ''both'' (2 / 1000) 5;
          wall = detect_wall b2 50 20;
          f = \<lparr>best_bid = fst (get_best_bid b), best_ask = fst (get_best_ask b),
               mid_price = get_mid_price b, spread = get_spread b,
               spread_bps = get_spread_bps b,
               bid_depth_5 = snd (get_best_bid b), ask_depth_5 = snd (get_best_ask b),
               ofi_1s = o1, ofi_5s = o5, wmp = get_wmp b,
               liquidity_void_above = filter (\<lambda>v. fst v < snd v) voids,
               liquidity_void_below = filter (\<lambda>v. snd v < fst v) voids,
               buy_pressure = (if 0 < o1 then o1 else 0),
               sell_pressure = (if o1 < 0 then \<bar>o1\<bar> else 0),
               has_wall = (wall \<noteq> None),
               wall_side = (case wall of None \<Rightarrow> [] | Some w \<Rightarrow> w_side w),
               wall_price = (case wall of None \<Rightarrow> 0 | Some w \<Rightarrow> w_price w),
               wall_depth = (case wall of None \<Rightarrow> 0 | Some w \<Rightarrow> w_depth w)\<rparr>
      in (f, b2\<lparr>features := f\<rparr>))"

section \<open>The feature extractor\<close>

record depth_entry =
  bid_depth :: real
  ask_depth :: real
  d_time :: real

text \<open>The state of \<^verbatim>\<open>MicrostructureFeatures\<close>; the order book it refers to is passed
  along with it.\<close>

record MicrostructureFeatures =
  ofi_history :: "real list"
  ofi_timestamps :: "real list"
  spread_history :: "real list"
  depth_history :: "depth_entry list"
  last_update :: "real option"

definition init_extractor :: MicrostructureFeatures where
  "init_extractor =
     \<lparr>ofi_history = [], ofi_timestamps = [], spread_history = [], depth_history = [],
      last_update = None\<rparr>"

text \<open>\<^verbatim>\<open>update\<close>: \<open>t0\<close> is its own clock read, \<open>t1\<close> and \<open>t2\<close> those of
  \<^verbatim>\<open>calculate_features\<close>.\<close>

definition update ::
  "MicrostructureFeatures \<Rightarrow> order_book \<Rightarrow> real \<Rightarrow> real \<Rightarrow> real \<Rightarrow> order_book \<times> MicrostructureFeatures" where
  "update fx b t0 t1 t2 =
     (let (f, b') = calculate_features b t1 t2
      in (b', fx\<lparr>last_update := Some t0,
                 ofi_history := deque_append (ofi_history fx) (ofi_1s f),
                 ofi_timestamps := deque_append (ofi_timestamps fx) t0,
                 spread_history := deque_append (spread_history fx) (spread_bps f),
                 depth_history := deque_append (depth_history fx)
                   \<lparr>bid_depth = bid_depth_5 f, ask_depth = ask_depth_5 f, d_time = t0\<rparr>\<rparr>))"

text \<open>\<^verbatim>\<open>numpy.polyfit(arange(n), y, 1)[0]\<close>: the least-squares slope of \<open>y\<close> against
  \<open>0, \<dots>, n - 1\<close>. With fewer than two points numpy raises or yields NaN, and either way
  the caller answers \<open>stable\<close>: there is no slope then.\<close>

definition ols_slope :: "real list \<Rightarrow> real" where
  "ols_slope ys =
     (let n = length ys;
          xs = map real [0..<n];
          xbar = sum_list xs / real n;
          ybar = sum_list ys / real n
      in sum_list (map (\<lambda>(x, y). (x - xbar) * (y - ybar)) (zip xs ys))
           / sum_list (map (\<lambda>x. (x - xbar) * (x - xbar)) xs))"

definition polyfit_slope :: "real list \<Rightarrow> real option" where
  "polyfit_slope ys = (if length ys < 2 then None else Some (ols_slope ys))"

text \<open>Python's slice \<^verbatim>\<open>xs[-window:]\<close>.\<close>

definition tail_slice :: "int \<Rightarrow> 'a list \<Rightarrow> 'a list" where
  "tail_slice window xs =
     (if 0 < window then drop (length xs - nat window) xs else drop (nat (- window)) xs)"

definition get_ofi_trend :: "MicrostructureFeatures \<Rightarrow> int \<Rightarrow> string" where
  "get_ofi_trend fx window =
     (if int (length (ofi_history fx)) < window then ''stable''
      else (case polyfit_slope (tail_slice window (ofi_history fx)) of
              None \<Rightarrow> ''stable''
            | Some slope \<Rightarrow>
                if 1 / 100 < slope then ''rising''
                else if slope < - (1 / 100) then ''falling''
                else ''stable''))"

text \<open>Scenario C: the best-bid level at price \<open>p\<close> is given the sizes of a list, one
  after the other, by the update step of \<^verbatim>\<open>update_increment\<close>, and the extractor is updated
  after each at the instant that comes with the size.\<close>

fun feed_bid_sizes ::
  "real \<Rightarrow> (real \<times> real) list \<Rightarrow> order_book \<times> MicrostructureFeatures
     \<Rightarrow> order_book \<times> MicrostructureFeatures" where
  "feed_bid_sizes p [] st = st"
| "feed_bid_sizes p ((s, t) # rest) st =
     feed_bid_sizes p rest (update (snd st) (incr_bid (fst st) p s None) t t t)"

text \<open>The fields of the feature record that the claim lists apart from the two OFI
  values, as one tuple.\<close>

definition book_derived ::
  "OrderBookFeatures \<Rightarrow>
     (real \<times> real \<times> real \<times> real \<times> real \<times> real \<times> real \<times> real) \<times>
     ((real \<times> real) list \<times> (real \<times> real) list) \<times> (bool \<times> string \<times> real \<times> real)" where
  "book_derived f =
     ((best_bid f, best_ask f, mid_price f, wmp f, spread f, spread_bps f,
       bid_depth_5 f, ask_depth_5 f),
      (liquidity_void_above f, liquidity_void_below f),
      (has_wall f, wall_side f, wall_price f, wall_depth f))"

text \<open>The value \<^verbatim>\<open>calculate_ofi\<close> computes from the two histories once it has extended
  them.\<close>

definition ofi_value :: "real \<Rightarrow> real \<Rightarrow> history_entry list \<Rightarrow> history_entry list \<Rightarrow> real" where
  "ofi_value window current_time bh ah =
     (let recent_bids = recent_entries window current_time bh;
          recent_asks = recent_entries window current_time ah
      in if length recent_bids < 2 \<or> length recent_asks < 2 then 0
         else (h_size (last recent_bids) - h_size (hd recent_bids))
                - (h_size (last recent_asks) - h_size (hd recent_asks)))"

text \<open>A book that holds one earlier sample in its histories: the best bid had size 3 at
  the instant 0, and has size 5 now.\<close>

definition sampled_book :: order_book where
  "sampled_book =
     scenario_book
       \<lparr>bids_history := [\<lparr>h_price = 100, h_size = 3, h_time = 0\<rparr>],
        asks_history := [\<lparr>h_price = 101, h_size = 2, h_time = 0\<rparr>]\<rparr>"

text \<open>Two books with the same price maps and sorted lists.\<close>

definition same_sides :: "order_book \<Rightarrow> order_book \<Rightarrow> bool" where
  "same_sides b' b = (bids b' = bids b \<and> asks b' = asks b \<and>
     sorted_bids b' = sorted_bids b \<and> sorted_asks b' = sorted_asks b)"

text \<open>The state of the book between two samples of the scenario.\<close>

definition fed_book ::
  "real \<Rightarrow> real \<Rightarrow> real \<Rightarrow> real \<Rightarrow> order_book \<Rightarrow> bool" where
  "fed_book p s0 a0 t0 b =
     ((\<exists>rest. sorted_bids b = - p # rest) \<and> bids b p \<noteq> None \<and>
      snd (get_best_ask b) = a0 \<and>
      bids_history b \<noteq> [] \<and> h_size (hd (bids_history b)) = s0 \<and>
      h_size (hd (asks_history b)) = a0 \<and>
      map h_time (bids_history b) = map h_time (asks_history b) \<and>
      (\<forall>e\<in>set (bids_history b). t0 \<le> h_time e))"

section \<open>The kill switch\<close>

text \<open>The state of \<^verbatim>\<open>RiskKillSwitch\<close>. \<open>cancel_log\<close> is not a field of the source: it
  records, in call order, the instrument of every call of
  \<^verbatim>\<open>execution.cancel_all_orders\<close>, the one effect the switch has on the outside. The
  fields \<^verbatim>\<open>max_position_ratio\<close>, \<^verbatim>\<open>running\<close> and \<^verbatim>\<open>monitor_task\<close> are not read by the
  methods below; one iteration of \<^verbatim>\<open>while self.running\<close> is one tick.\<close>

record RiskKillSwitch =
  max_daily_loss_ratio :: real
  max_latency_ms :: real
  is_triggered :: bool
  trigger_reason :: string
  trigger_time :: "real option"
  daily_start_balance :: real
  current_balance :: real
  latency_samples :: "real list"
  cancel_log :: "string list"

definition init_kill_switch :: RiskKillSwitch where
  "init_kill_switch =
     \<lparr>max_daily_loss_ratio = 5 / 100, max_latency_ms = 100, is_triggered = False,
      trigger_reason = [], trigger_time = None, daily_start_balance = 0,
      current_balance = 0, latency_samples = [], cancel_log = []\<rparr>"

text \<open>What the execution engine answers during one tick. \<^verbatim>\<open>get_balance\<close> returns
  \<^verbatim>\<open>None\<close> (\<open>NoBalance\<close>), a reply whose \<^verbatim>\<open>details[0]["eq"]\<close> parses (\<open>Equity\<close>), or a
  reply on which that expression raises (\<open>BadBalance\<close>). A position is its \<^verbatim>\<open>instId\<close>, or
  \<open>None\<close> when the key is missing. The engine's own methods catch their exceptions.\<close>

datatype balance_reply = NoBalance | Equity real | BadBalance

record tick_env =
  e_balance :: balance_reply
  e_avg_latency :: real
  e_positions :: "string option list"
  e_now :: real

definition update_data :: "RiskKillSwitch \<Rightarrow> tick_env \<Rightarrow> error + RiskKillSwitch" where
  "update_data s env =
     (case e_balance env of
        BadBalance \<Rightarrow> Inl KeyError
      | reply \<Rightarrow>
          (let s1 = (case reply of Equity x \<Rightarrow> s\<lparr>current_balance := x\<rparr> | _ \<Rightarrow> s)
           in if 0 < e_avg_latency env then
                (let ls = latency_samples s1 @ [e_avg_latency env]
                 in Inr (s1\<lparr>latency_samples := (if 100 < length ls then tl ls else ls)\<rparr>))
              else Inr s1))"

fun cancel_sweep :: "string list \<Rightarrow> string option list \<Rightarrow> string list \<times> error option" where
  "cancel_sweep acc [] = (acc, None)"
| "cancel_sweep acc (None # _) = (acc, Some KeyError)"
| "cancel_sweep acc (Some inst_id # ps) = cancel_sweep (acc @ [inst_id]) ps"

definition trigger :: "RiskKillSwitch \<Rightarrow> tick_env \<Rightarrow> string \<Rightarrow> RiskKillSwitch \<times> error option" where
  "trigger s env reason =
     (let s1 = s\<lparr>is_triggered := True, trigger_reason := reason, trigger_time := Some (e_now env)\<rparr>;
          r = cancel_sweep (cancel_log s1) (e_positions env)
      in (s1\<lparr>cancel_log := fst r\<rparr>, snd r))"

definition check_conditions :: "RiskKillSwitch \<Rightarrow> tick_env \<Rightarrow> RiskKillSwitch \<times> error option" where
  "check_conditions s env =
     (if 0 < daily_start_balance s \<and>
         max_daily_loss_ratio s < (daily_start_balance s - current_balance s) / daily_start_balance s
      then trigger s env ''daily_loss''
      else if latency_samples s \<noteq> [] \<and>
         max_latency_ms s < sum_list (latency_samples s) / real (length (latency_samples s))
      then trigger s env ''latency''
      else (s, None))"

text \<open>One iteration of \<^verbatim>\<open>_monitor_loop\<close>: a triggered switch only sleeps; an exception is
  logged and the loop goes on with whatever had been written before it.\<close>

definition monitor_tick :: "RiskKillSwitch \<Rightarrow> tick_env \<Rightarrow> RiskKillSwitch" where
  "monitor_tick s env =
     (if is_triggered s then s
      else (case update_data s env of
              Inl e \<Rightarrow> s
            | Inr s1 \<Rightarrow> fst (check_conditions s1 env)))"

fun monitor_loop :: "RiskKillSwitch \<Rightarrow> tick_env list \<Rightarrow> RiskKillSwitch" where
  "monitor_loop s [] = s"
| "monitor_loop s (env # envs) = monitor_loop (monitor_tick s env) envs"

definition reset :: "RiskKillSwitch \<Rightarrow> RiskKillSwitch" where
  "reset s =
     s\<lparr>is_triggered := False, trigger_reason := [], trigger_time := None,
       daily_start_balance := current_balance s\<rparr>"

definition is_safe :: "RiskKillSwitch \<Rightarrow> bool" where
  "is_safe s = (\<not> is_triggered s)"

text \<open>The instruments one sweep of \<^verbatim>\<open>_trigger\<close> cancels: those of the reported positions,
  in order, up to the first position that has no \<^verbatim>\<open>instId\<close>.\<close>

definition sweep_ids :: "string option list \<Rightarrow> string list" where
  "sweep_ids ps = map the (takeWhile (\<lambda>p. p \<noteq> None) ps)"

text \<open>The loss ratio \<^verbatim>\<open>_check_conditions\<close> computes once the balance of a tick is stored.\<close>

definition loss_ratio_at :: "RiskKillSwitch \<Rightarrow> real \<Rightarrow> real" where
  "loss_ratio_at s bal = (daily_start_balance s - bal) / daily_start_balance s"

text \<open>A tick on which the engine reports equity \<open>bal\<close>, a 20 ms latency and one open
  position; and a switch started with a balance of 1000.\<close>

definition tick_at :: "real \<Rightarrow> real \<Rightarrow> tick_env" where
  "tick_at bal t =
     \<lparr>e_balance = Equity bal, e_avg_latency = 20,
      e_positions = [Some ''BTC-USDT-SWAP''], e_now = t\<rparr>"

definition started_switch :: RiskKillSwitch where
  "started_switch = init_kill_switch\<lparr>daily_start_balance := 1000, current_balance := 1000\<rparr>"

section \<open>The pre-trade gate\<close>

record RiskMetrics =
  total_balance :: real
  available_balance :: real
  total_position_value :: real
  unrealized_pnl :: real
  daily_pnl :: real
  leverage :: real
  daily_loss_ratio :: real

text \<open>The state of \<^verbatim>\<open>RiskManager\<close>. Its field \<^verbatim>\<open>daily_start_balance\<close> is written
  \<open>daily_start_balance_rm\<close> here, the kill switch having a field of the same name;
  \<^verbatim>\<open>daily_start_time\<close> is not read by the gate and is left out.\<close>

record RiskManager =
  metrics :: RiskMetrics
  start_balance :: real
  daily_start_balance_rm :: real
  total_trades :: int
  winning_trades :: int
  losing_trades :: int
  max_daily_loss :: real
  leverage_limit :: int
  max_position_size :: real
  emergency_stop :: bool

text \<open>A manager as its constructor leaves it, with the defaults of \<^verbatim>\<open>Config\<close>.\<close>

definition init_risk_manager :: RiskManager where
  "init_risk_manager =
     \<lparr>metrics = \<lparr>total_balance = 0, available_balance = 0, total_position_value = 0,
                 unrealized_pnl = 0, daily_pnl = 0, leverage = 0, daily_loss_ratio = 0\<rparr>,
      start_balance = 0, daily_start_balance_rm = 0,
      total_trades = 0, winning_trades = 0, losing_trades = 0,
      max_daily_loss = 5 / 100, leverage_limit = 20, max_position_size = 1000,
      emergency_stop = False\<rparr>"

text \<open>The reason string of the source is a formatted message; the model keeps which check
  produced it and the numbers it prints.\<close>

datatype reason =
    EmergencyStop
  | DailyLossReached real
  | PositionTooLarge real real
  | InsufficientBalance real real
  | LeverageTooHigh real int
  | CheckPassed

definition kelly_criterion :: "RiskManager \<Rightarrow> real \<Rightarrow> real \<Rightarrow> real \<Rightarrow> real" where
  "kelly_criterion rm win_rate avg_win avg_loss =
     (if avg_win = 0 then max_position_size rm * (1 / 10)
      else total_balance (metrics rm) *
           max 0 (min ((win_rate * avg_win - (1 - win_rate) * avg_loss) / avg_win) (25 / 100)))"

text \<open>\<^verbatim>\<open>pre_trade_check\<close> has no \<^verbatim>\<open>try\<close>: a division by zero leaves it as an exception.
  The Kelly size of step 6 only decides whether a warning is logged.\<close>

definition pre_trade_check ::
  "RiskManager \<Rightarrow> string \<Rightarrow> string \<Rightarrow> real \<Rightarrow> real \<Rightarrow> error + ((bool \<times> reason) \<times> RiskManager)" where
  "pre_trade_check rm inst_id side sz px =
     (if emergency_stop rm then Inr ((False, EmergencyStop), rm)
      else if daily_loss_ratio (metrics rm) \<le> - max_daily_loss rm
      then Inr ((False, DailyLossReached (daily_loss_ratio (metrics rm))),
                rm\<lparr>emergency_stop := True\<rparr>)
      else
        (let position_value = sz * px
         in if max_position_size rm < position_value
            then Inr ((False, PositionTooLarge position_value (max_position_size rm)), rm)
            else if leverage_limit rm = 0 then Inl ZeroDivisionError
            else
              (let required_margin = position_value / real_of_int (leverage_limit rm)
               in if available_balance (metrics rm) < required_margin
                  then Inr ((False, InsufficientBalance required_margin
                                      (available_balance (metrics rm))), rm)
                  else if total_balance (metrics rm) = 0 then Inl ZeroDivisionError
                  else
                    (let new_leverage =
                           (total_position_value (metrics rm) + position_value)
                             / total_balance (metrics rm)
                     in if real_of_int (leverage_limit rm) < new_leverage
                        then Inr ((False, LeverageTooHigh new_leverage (leverage_limit rm)), rm)
                        else Inr ((True, CheckPassed), rm)))))"

section \<open>Message dispatch of the stream client\<close>

text \<open>A subscriber is an \<^verbatim>\<open>async\<close> callback: run on a payload it changes the world
  \<open>'w\<close> outside the streamer and either returns (\<open>None\<close>) or raises. The streamer keeps a
  dictionary from its six channel keys to the lists of subscribers.\<close>

type_synonym ('p, 'w) callback = "'p \<Rightarrow> 'w \<Rightarrow> 'w \<times> error option"

type_synonym ('p, 'w) callbacks = "string \<rightharpoonup> ('p, 'w) callback list"

definition init_callbacks :: "('p, 'w) callbacks" where
  "init_callbacks =
     [''ticker'' \<mapsto> [], ''orderbook'' \<mapsto> [], ''trades'' \<mapsto> [],
      ''liquidation'' \<mapsto> [], ''account'' \<mapsto> [], ''orders'' \<mapsto> []]"

definition register_callback ::
  "('p, 'w) callbacks \<Rightarrow> string \<Rightarrow> ('p, 'w) callback \<Rightarrow> ('p, 'w) callbacks" where
  "register_callback cbs channel callback =
     (case cbs channel of
        Some l \<Rightarrow> cbs(channel \<mapsto> l @ [callback])
      | None \<Rightarrow> cbs)"

text \<open>The loop \<^verbatim>\<open>for callback in self.callbacks[key]: await callback(payload)\<close>: the
  first callback that raises ends it.\<close>

fun run_callbacks :: "('p, 'w) callback list \<Rightarrow> 'p \<Rightarrow> 'w \<Rightarrow> 'w \<times> error option" where
  "run_callbacks [] payload w = (w, None)"
| "run_callbacks (cb # rest) payload w =
     (case cb payload w of
        (w', Some e) \<Rightarrow> (w', Some e)
      | (w', None) \<Rightarrow> run_callbacks rest payload w')"

text \<open>An inbound message: a data message with the value of \<^verbatim>\<open>data["arg"]["channel"]\<close>
  (\<open>None\<close> when that lookup raises) and its payload, an event message, or anything else.\<close>

datatype 'p message = DataMessage "string option" 'p | EventMessage string | OtherMessage

definition dispatch_key ::
  "('p, 'w) callbacks \<Rightarrow> string \<Rightarrow> 'p \<Rightarrow> 'w \<Rightarrow> 'w" where
  "dispatch_key cbs key payload w =
     (case cbs key of None \<Rightarrow> w | Some l \<Rightarrow> fst (run_callbacks l payload w))"

text \<open>\<^verbatim>\<open>_handle_message\<close>; every exception is caught and logged at its end.\<close>

definition handle_message :: "('p, 'w) callbacks \<Rightarrow> 'p message \<Rightarrow> 'w \<Rightarrow> 'w" where
  "handle_message cbs msg w =
     (case msg of
        DataMessage None payload \<Rightarrow> w
      | DataMessage (Some channel) payload \<Rightarrow>
          (if channel = ''tickers'' \<and> cbs ''ticker'' \<noteq> None
             then dispatch_key cbs ''ticker'' payload w
           else if channel = ''books'' \<and> cbs ''orderbook'' \<noteq> None
             then dispatch_key cbs ''orderbook'' payload w
           else if channel = ''trades'' \<and> cbs ''trades'' \<noteq> None
             then dispatch_key cbs ''trades'' payload w
           else if channel = ''liquidation-orders'' \<and> cbs ''liquidation'' \<noteq> None
             then dispatch_key cbs ''liquidation'' payload w
           else if channel = ''account'' \<and> cbs ''account'' \<noteq> None
             then dispatch_key cbs ''account'' payload w
           else if channel = ''orders'' \<and> cbs ''orders'' \<noteq> None
             then dispatch_key cbs ''orders'' payload w
           else w)
      | EventMessage event \<Rightarrow> w
      | OtherMessage \<Rightarrow> w)"

text \<open>The routing table of the specification.\<close>

definition spec_route :: "string \<Rightarrow> string option" where
  "spec_route channel =
     (if channel = ''tickers'' then Some ''ticker''
      else if channel = ''books'' \<or> channel = ''books-l2-tbt'' then Some ''orderbook''
      else if channel = ''trades'' then Some ''trades''
      else if channel = ''liquidation-orders'' then Some ''liquidation''
      else if channel = ''account'' then Some ''account''
      else if channel = ''orders'' then Some ''orders''
      else None)"

text \<open>A subscriber that never raises and writes its name to a log.\<close>

definition logging_callback :: "string \<Rightarrow> (nat, string list) callback" where
  "logging_callback name payload w = (w @ [name], None)"

text \<open>The routing table the chain of comparisons in \<^verbatim>\<open>_handle_message\<close> amounts to.\<close>

definition source_route :: "string \<Rightarrow> string option" where
  "source_route channel =
     (if channel = ''tickers'' then Some ''ticker''
      else if channel = ''books'' then Some ''orderbook''
      else if channel = ''trades'' then Some ''trades''
      else if channel = ''liquidation-orders'' then Some ''liquidation''
      else if channel = ''account'' then Some ''account''
      else if channel = ''orders'' then Some ''orders''
      else None)"

section \<open>The wall-riding tactic\<close>

text \<open>The module \<^verbatim>\<open>strategies/tactical_strategies.py\<close> calls \<^verbatim>\<open>datetime.now()\<close> but
  never imports \<^verbatim>\<open>datetime\<close>. The outcome of a clock read is therefore an argument of type
  \<open>error + real\<close> of the two methods below: \<open>Inr t\<close> is the instant \<open>t\<close> in seconds, and
  \<open>unbound_clock\<close> is what the module as it stands gets on every read. The reads made
  during one call of a method see the same outcome.\<close>

definition unbound_clock :: "error + real" where
  "unbound_clock = Inl NameError"

record wall_info =
  first_seen :: real
  last_seen :: real
  depth :: real

text \<open>The inner dictionaries of \<^verbatim>\<open>self.walls\<close> are association lists in insertion order,
  the order in which Python iterates them.\<close>

record WallRidingStrategy =
  wall_depth_threshold :: real
  wall_persistence_time :: real
  ride_offset :: int
  walls :: "string \<rightharpoonup> (real \<times> wall_info) list"

definition init_wall_riding :: WallRidingStrategy where
  "init_wall_riding =
     \<lparr>wall_depth_threshold = 100, wall_persistence_time = 5, ride_offset = 1,
      walls = Map.empty\<rparr>"

text \<open>An order-book message as the handler reads it: \<^verbatim>\<open>instId\<close> and the \<^verbatim>\<open>bids\<close>
  entries.\<close>

record book_message =
  m_inst_id :: string
  m_bids :: "raw_level list"

definition set_last_seen :: "real \<Rightarrow> real \<Rightarrow> (real \<times> wall_info) list \<Rightarrow> (real \<times> wall_info) list" where
  "set_last_seen p t ws = map (\<lambda>(q, w). if q = p then (q, w\<lparr>last_seen := t\<rparr>) else (q, w)) ws"

text \<open>The body of the loop over \<^verbatim>\<open>bids[:20]\<close> for one parsed entry.\<close>

definition note_level ::
  "error + real \<Rightarrow> string \<Rightarrow> real \<Rightarrow> real \<Rightarrow> WallRidingStrategy \<Rightarrow> WallRidingStrategy \<times> error option" where
  "note_level clock inst_id p d st =
     (if wall_depth_threshold st \<le> d then
        (let st1 = (if walls st inst_id = None then st\<lparr>walls := (walls st)(inst_id \<mapsto> [])\<rparr> else st);
             ws = the (walls st1 inst_id)
         in case clock of
              Inl e \<Rightarrow> (st1, Some e)
            | Inr t \<Rightarrow>
                if p \<notin> fst ` set ws
                then (st1\<lparr>walls := (walls st1)(inst_id \<mapsto>
                        ws @ [(p, \<lparr>first_seen = t, last_seen = t, depth = d\<rparr>)])\<rparr>, None)
                else (st1\<lparr>walls := (walls st1)(inst_id \<mapsto> set_last_seen p t ws)\<rparr>, None))
      else (st, None))"

fun scan_bids ::
  "error + real \<Rightarrow> string \<Rightarrow> raw_level list \<Rightarrow> WallRidingStrategy \<Rightarrow> WallRidingStrategy \<times> error option" where
  "scan_bids clock inst_id [] st = (st, None)"
| "scan_bids clock inst_id (Malformed # _) st = (st, Some ValueError)"
| "scan_bids clock inst_id (Level p d c # ls) st =
     (case note_level clock inst_id p d st of
        (st', Some e) \<Rightarrow> (st', Some e)
      | (st', None) \<Rightarrow> scan_bids clock inst_id ls st')"

text \<open>\<^verbatim>\<open>on_orderbook\<close>; \<open>None\<close> is a falsy \<^verbatim>\<open>data\<close>. Every exception is caught and logged,
  and what was written before it stays.\<close>

definition on_orderbook ::
  "error + real \<Rightarrow> book_message option \<Rightarrow> WallRidingStrategy \<Rightarrow> WallRidingStrategy" where
  "on_orderbook clock data st =
     (case data of
        None \<Rightarrow> st
      | Some msg \<Rightarrow>
          (case scan_bids clock (m_inst_id msg) (take 20 (m_bids msg)) st of
             (st1, Some e) \<Rightarrow> st1
           | (st1, None) \<Rightarrow>
               (case clock of
                  Inl e \<Rightarrow> st1
                | Inr current_time \<Rightarrow>
                    (case walls st1 (m_inst_id msg) of
                       None \<Rightarrow> st1
                     | Some ws \<Rightarrow>
                         st1\<lparr>walls := (walls st1)(m_inst_id msg \<mapsto>
                           filter (\<lambda>(p, w). \<not> 2 < current_time - last_seen w) ws)\<rparr>))))"

record ride =
  r_wall_price :: real
  r_ride_price :: real
  r_wall_depth :: real
  r_persistence :: real

text \<open>\<^verbatim>\<open>can_ride_wall\<close>: the first wall, in insertion order, that is old enough.\<close>

definition can_ride_wall :: "error + real \<Rightarrow> string \<Rightarrow> WallRidingStrategy \<Rightarrow> ride option" where
  "can_ride_wall clock inst_id st =
     (case walls st inst_id of
        None \<Rightarrow> None
      | Some ws \<Rightarrow>
          if ws = [] then None
          else (case clock of
                  Inl e \<Rightarrow> None
                | Inr current_time \<Rightarrow>
                    (case find (\<lambda>(p, w). wall_persistence_time st \<le> current_time - first_seen w) ws of
                       None \<Rightarrow> None
                     | Some (p, w) \<Rightarrow>
                         Some \<lparr>r_wall_price = p, r_ride_price = p * (1 + 1 / 1000),
                               r_wall_depth = depth w,
                               r_persistence = current_time - first_seen w\<rparr>)))"

text \<open>Feeding a list of messages, each with the outcome of its clock reads.\<close>

fun feed_books ::
  "((error + real) \<times> book_message) list \<Rightarrow> WallRidingStrategy \<Rightarrow> WallRidingStrategy" where
  "feed_books [] st = st"
| "feed_books ((clock, msg) # rest) st = feed_books rest (on_orderbook clock (Some msg) st)"

text \<open>Scenario B: a message showing one bid level of price \<open>p\<close> and depth \<open>d\<close>, sampled
  once a second at the instants \<open>0, 1, \<dots>, n - 1\<close>; and the state in which that level is the
  only wall, first seen at 0 and last seen at \<open>k\<close>.\<close>

definition level_sample :: "string \<Rightarrow> real \<Rightarrow> real \<Rightarrow> book_message" where
  "level_sample inst_id p d = \<lparr>m_inst_id = inst_id, m_bids = [Level p d None]\<rparr>"

definition samples_upto ::
  "string \<Rightarrow> real \<Rightarrow> real \<Rightarrow> nat \<Rightarrow> ((error + real) \<times> book_message) list" where
  "samples_upto inst_id p d n = map (\<lambda>k. (Inr (real k), level_sample inst_id p d)) [0..<n]"

definition wall_state :: "string \<Rightarrow> real \<Rightarrow> real \<Rightarrow> nat \<Rightarrow> WallRidingStrategy" where
  "wall_state inst_id p d k =
     init_wall_riding
       \<lparr>walls := [inst_id \<mapsto> [(p, \<lparr>first_seen = 0, last_seen = real k, depth = d\<rparr>)]]\<rparr>"

text \<open>A state in which no instrument has a wall on record.\<close>

definition quiet_walls :: "WallRidingStrategy \<Rightarrow> bool" where
  "quiet_walls st = (\<forall>i. walls st i = None \<or> walls st i = Some [])"

section \<open>Properties of the order-book replica\<close>

subsection \<open>Sorted insertion and removal\<close>

lemma set_insort_right: "set (insort_right x xs) = insert x (set xs)"
  by (induction xs) auto

lemma sorted_insort_right: "sorted xs \<Longrightarrow> sorted (insort_right x xs)"
  by (induction xs) (auto simp: set_insort_right)

lemma distinct_insort_right: "distinct xs \<Longrightarrow> x \<notin> set xs \<Longrightarrow> distinct (insort_right x xs)"
  by (induction xs) (auto simp: set_insort_right)

lemma insort_right_remove1:
  "sorted xs \<Longrightarrow> distinct xs \<Longrightarrow> x \<in> set xs \<Longrightarrow> insort_right x (remove1 x xs) = xs"
proof (induction xs)
  case Nil
  then show ?case by simp
next
  case (Cons y ys)
  show ?case
  proof (cases "x = y")
    case True
    with Cons.prems have "\<forall>z\<in>set ys. x < z" by (force simp: less_le)
    then have "insort_right x ys = x # ys" by (cases ys) auto
    with True show ?thesis by simp
  next
    case False
    with Cons.prems have "y < x" "x \<in> set ys" by auto
    with Cons False show ?thesis by simp
  qed
qed

lemma side_ok_insert:
  "side_ok xs K \<Longrightarrow> x \<notin> K \<Longrightarrow> side_ok (insort_right x xs) (insert x K)"
  by (auto simp: side_ok_def sorted_insort_right distinct_insort_right set_insort_right)

lemma side_ok_remove:
  "side_ok xs K \<Longrightarrow> side_ok (remove1 x xs) (K - {x})"
  by (auto simp: side_ok_def sorted_remove1)

subsection \<open>The invariant is kept by incremental updates\<close>

lemma book_ok_init: "book_ok init_book"
  by (simp add: book_ok_def side_ok_def init_book_def)

lemma book_ok_incr_bid: "book_ok b \<Longrightarrow> book_ok (incr_bid b p s c)"
proof -
  assume ok: "book_ok b"
  then have sb: "side_ok (sorted_bids b) (uminus ` dom (bids b))"
    by (simp add: book_ok_def)
  have rm: "side_ok (remove1 (- p) (sorted_bids b)) (uminus ` (dom (bids b) - {p}))"
  proof -
    have "uminus ` (dom (bids b) - {p}) = uminus ` dom (bids b) - {- p}" by auto
    with side_ok_remove [OF sb, of "- p"] show ?thesis by simp
  qed
  have ins: "bids b p = None \<Longrightarrow>
      side_ok (insort_right (- p) (sorted_bids b)) (uminus ` insert p (dom (bids b)))"
  proof -
    assume "bids b p = None"
    then have "- p \<notin> uminus ` dom (bids b)" by (auto simp: dom_def)
    from side_ok_insert [OF sb this] show ?thesis by simp
  qed
  have same: "bids b p \<noteq> None \<Longrightarrow>
      insert (- p) (uminus ` dom (bids b)) = uminus ` dom (bids b)"
    by (auto simp: dom_def)
  show ?thesis
    using ok sb rm ins same by (auto simp: incr_bid_def book_ok_def Let_def)
qed

lemma book_ok_incr_ask: "book_ok b \<Longrightarrow> book_ok (incr_ask b p s c)"
proof -
  assume ok: "book_ok b"
  then have sa: "side_ok (sorted_asks b) (dom (asks b))"
    by (simp add: book_ok_def)
  have ins: "asks b p = None \<Longrightarrow>
      side_ok (insort_right p (sorted_asks b)) (insert p (dom (asks b)))"
    using side_ok_insert [OF sa, of p] by (auto simp: dom_def)
  have same: "asks b p \<noteq> None \<Longrightarrow> insert p (dom (asks b)) = dom (asks b)"
    by (auto simp: dom_def)
  show ?thesis
    using ok sa side_ok_remove [OF sa, of p] ins same
    by (auto simp: incr_ask_def book_ok_def Let_def)
qed

lemma book_ok_incr_bids_loop: "book_ok b \<Longrightarrow> book_ok (fst (incr_bids_loop b ls))"
  by (induction b ls rule: incr_bids_loop.induct) (simp_all add: book_ok_incr_bid)

lemma book_ok_incr_asks_loop: "book_ok b \<Longrightarrow> book_ok (fst (incr_asks_loop b ls))"
  by (induction b ls rule: incr_asks_loop.induct) (simp_all add: book_ok_incr_ask)

lemma book_ok_error_count [simp]: "book_ok (b\<lparr>error_count := n\<rparr>) = book_ok b"
  by (simp add: book_ok_def)

lemma book_ok_checksum_update [simp]:
  "book_ok (b\<lparr>checksum := k, update_count := n\<rparr>) = book_ok b"
  by (simp add: book_ok_def)

lemma book_ok_update_increment: "book_ok b \<Longrightarrow> book_ok (snd (update_increment b d))"
proof -
  assume ok: "book_ok b"
  obtain b1 e1 where l1: "incr_bids_loop b (d_bids d) = (b1, e1)" by force
  obtain b2 e2 where l2: "incr_asks_loop b1 (d_asks d) = (b2, e2)" by force
  from ok l1 have ok1: "book_ok b1" using book_ok_incr_bids_loop [of b "d_bids d"] by simp
  from ok1 l2 have ok2: "book_ok b2" using book_ok_incr_asks_loop [of b1 "d_asks d"] by simp
  show ?thesis
    using l1 l2 ok1 ok2 by (auto simp: update_increment_def split: option.splits)
qed


subsection \<open>The invariant holds after a snapshot\<close>

lemma book_ok_snap_bid:
  "book_ok b \<Longrightarrow> bids b p = None \<Longrightarrow> book_ok (snap_bid b p s c)"
proof -
  assume ok: "book_ok b" and fresh: "bids b p = None"
  then have sb: "side_ok (sorted_bids b) (uminus ` dom (bids b))"
    by (simp add: book_ok_def)
  from fresh have "- p \<notin> uminus ` dom (bids b)" by (auto simp: dom_def)
  from side_ok_insert [OF sb this] ok fresh show ?thesis
    by (simp add: snap_bid_def book_ok_def)
qed

lemma book_ok_snap_ask:
  "book_ok b \<Longrightarrow> asks b p = None \<Longrightarrow> book_ok (snap_ask b p s c)"
proof -
  assume ok: "book_ok b" and fresh: "asks b p = None"
  then have sa: "side_ok (sorted_asks b) (dom (asks b))"
    by (simp add: book_ok_def)
  from fresh have "p \<notin> dom (asks b)" by (auto simp: dom_def)
  from side_ok_insert [OF sa this] ok fresh show ?thesis
    by (simp add: snap_ask_def book_ok_def)
qed

lemma dom_snap_bid: "dom (bids (snap_bid b p s c)) \<subseteq> insert p (dom (bids b))"
  by (auto simp: snap_bid_def split: if_splits)

lemma dom_snap_ask: "dom (asks (snap_ask b p s c)) \<subseteq> insert p (dom (asks b))"
  by (auto simp: snap_ask_def split: if_splits)

lemma book_ok_snap_bids_loop:
  "book_ok b \<Longrightarrow> distinct (level_prices ls) \<Longrightarrow> dom (bids b) \<inter> set (level_prices ls) = {} \<Longrightarrow>
     book_ok (fst (snap_bids_loop b ls))"
proof (induction b ls rule: snap_bids_loop.induct)
  case (1 b)
  then show ?case by simp
next
  case (2 b ls)
  then show ?case by simp
next
  case (3 b p s c ls)
  from "3.prems" have fresh: "bids b p = None" by (auto simp: dom_def)
  have ok: "book_ok (snap_bid b p s c)"
    by (rule book_ok_snap_bid [OF "3.prems"(1) fresh])
  have d: "distinct (level_prices ls)" using "3.prems"(2) by simp
  have "dom (bids (snap_bid b p s c)) \<inter> set (level_prices ls) = {}"
    using dom_snap_bid [of b p s c] "3.prems"(2,3) by auto
  from "3.IH" [OF ok d this] show ?case by simp
qed

lemma book_ok_snap_asks_loop:
  "book_ok b \<Longrightarrow> distinct (level_prices ls) \<Longrightarrow> dom (asks b) \<inter> set (level_prices ls) = {} \<Longrightarrow>
     book_ok (fst (snap_asks_loop b ls))"
proof (induction b ls rule: snap_asks_loop.induct)
  case (1 b)
  then show ?case by simp
next
  case (2 b ls)
  then show ?case by simp
next
  case (3 b p s c ls)
  from "3.prems" have fresh: "asks b p = None" by (auto simp: dom_def)
  have ok: "book_ok (snap_ask b p s c)"
    by (rule book_ok_snap_ask [OF "3.prems"(1) fresh])
  have d: "distinct (level_prices ls)" using "3.prems"(2) by simp
  have "dom (asks (snap_ask b p s c)) \<inter> set (level_prices ls) = {}"
    using dom_snap_ask [of b p s c] "3.prems"(2,3) by auto
  from "3.IH" [OF ok d this] show ?case by simp
qed

lemma snap_bids_loop_asks [simp]: "asks (fst (snap_bids_loop b ls)) = asks b"
  by (induction b ls rule: snap_bids_loop.induct) (simp_all add: snap_bid_def)

lemma book_ok_update_count [simp]: "book_ok (b\<lparr>update_count := n\<rparr>) = book_ok b"
  by (simp add: book_ok_def)

lemma book_ok_checksum [simp]: "book_ok (b\<lparr>checksum := n\<rparr>) = book_ok b"
  by (simp add: book_ok_def)

text \<open>A snapshot that names no price twice on a side leaves a book that satisfies the
  invariant, whatever the book was before.\<close>

lemma book_ok_update_snapshot:
  assumes "distinct (level_prices (d_bids d))" and "distinct (level_prices (d_asks d))"
  shows "book_ok (update_snapshot b d)"
proof -
  define b0 where
    "b0 = b\<lparr>bids := Map.empty, asks := Map.empty, sorted_bids := [], sorted_asks := []\<rparr>"
  have ok0: "book_ok b0" by (simp add: b0_def book_ok_def side_ok_def)
  obtain b1 e1 where l1: "snap_bids_loop b0 (d_bids d) = (b1, e1)" by force
  obtain b2 e2 where l2: "snap_asks_loop b1 (d_asks d) = (b2, e2)" by force
  have ok1: "book_ok b1"
    using book_ok_snap_bids_loop [OF ok0 assms(1)] l1 by (simp add: b0_def)
  have "asks b1 = asks b0" using snap_bids_loop_asks [of b0 "d_bids d"] l1 by simp
  then have "dom (asks b1) \<inter> set (level_prices (d_asks d)) = {}" by (simp add: b0_def)
  from book_ok_snap_asks_loop [OF ok1 assms(2) this] l2 have ok2: "book_ok b2" by simp
  show ?thesis
    using l1 l2 ok1 ok2
    by (auto simp: update_snapshot_def b0_def [symmetric] Let_def split: option.splits)
qed

lemma scenario_snapshot_sides:
  "bids (update_snapshot init_book (scenario_snapshot k)) = bids scenario_book"
  "asks (update_snapshot init_book (scenario_snapshot k)) = asks scenario_book"
  "sorted_bids (update_snapshot init_book (scenario_snapshot k)) = sorted_bids scenario_book"
  "sorted_asks (update_snapshot init_book (scenario_snapshot k)) = sorted_asks scenario_book"
  by (auto simp: update_snapshot_def scenario_snapshot_def scenario_book_def init_book_def
      snap_bid_def snap_ask_def Let_def)

subsection \<open>What an incremental update leaves in the two sides\<close>

lemma update_increment_sides:
  assumes "incr_bids_loop b (d_bids d) = (b1, None)"
    and "incr_asks_loop b1 (d_asks d) = (b2, None)"
  shows "bids (snd (update_increment b d)) = bids b2"
    and "asks (snd (update_increment b d)) = asks b2"
    and "sorted_bids (snd (update_increment b d)) = sorted_bids b2"
    and "sorted_asks (snd (update_increment b d)) = sorted_asks b2"
  using assms by (simp_all add: update_increment_def)

lemma update_delta_bid:
  "bids (snd (update_increment b (delta_bid p s c k))) = bids (incr_bid b p s c)"
  "sorted_bids (snd (update_increment b (delta_bid p s c k))) = sorted_bids (incr_bid b p s c)"
  "asks (snd (update_increment b (delta_bid p s c k))) = asks (incr_bid b p s c)"
  "sorted_asks (snd (update_increment b (delta_bid p s c k))) = sorted_asks (incr_bid b p s c)"
  by (simp_all add: update_increment_def delta_bid_def)

lemma update_delta_ask:
  "bids (snd (update_increment b (delta_ask p s c k))) = bids (incr_ask b p s c)"
  "sorted_bids (snd (update_increment b (delta_ask p s c k))) = sorted_bids (incr_ask b p s c)"
  "asks (snd (update_increment b (delta_ask p s c k))) = asks (incr_ask b p s c)"
  "sorted_asks (snd (update_increment b (delta_ask p s c k))) = sorted_asks (incr_ask b p s c)"
  by (simp_all add: update_increment_def delta_ask_def)

lemma incr_bid_other_side [simp]:
  "asks (incr_bid b p s c) = asks b" "sorted_asks (incr_bid b p s c) = sorted_asks b"
  by (simp_all add: incr_bid_def Let_def)

lemma incr_ask_other_side [simp]:
  "bids (incr_ask b p s c) = bids b" "sorted_bids (incr_ask b p s c) = sorted_bids b"
  by (simp_all add: incr_ask_def Let_def)

lemma incr_bid_remove:
  assumes "bids b p \<noteq> None"
  shows "bids (incr_bid b p 0 c) = (bids b)(p := None)"
    and "sorted_bids (incr_bid b p 0 c) = remove1 (- p) (sorted_bids b)"
  using assms by (simp_all add: incr_bid_def)

lemma incr_ask_remove:
  assumes "asks b p \<noteq> None"
  shows "asks (incr_ask b p 0 c) = (asks b)(p := None)"
    and "sorted_asks (incr_ask b p 0 c) = remove1 p (sorted_asks b)"
  using assms by (simp_all add: incr_ask_def)

lemma incr_bid_fresh:
  assumes "bids b p = None" and "s \<noteq> 0"
  shows "bids (incr_bid b p s c) = (bids b)(p \<mapsto> mk_level p s c)"
    and "sorted_bids (incr_bid b p s c) = insort_right (- p) (sorted_bids b)"
  using assms by (simp_all add: incr_bid_def)

lemma incr_ask_fresh:
  assumes "asks b p = None" and "s \<noteq> 0"
  shows "asks (incr_ask b p s c) = (asks b)(p \<mapsto> mk_level p s c)"
    and "sorted_asks (incr_ask b p s c) = insort_right p (sorted_asks b)"
  using assms by (simp_all add: incr_ask_def)

lemma get_bids_cong:
  "bids b' = bids b \<Longrightarrow> sorted_bids b' = sorted_bids b \<Longrightarrow> get_bids n b' = get_bids n b"
  by (simp add: get_bids_def)

lemma get_asks_cong:
  "asks b' = asks b \<Longrightarrow> sorted_asks b' = sorted_asks b \<Longrightarrow> get_asks n b' = get_asks n b"
  by (simp add: get_asks_def)

lemma get_best_bid_cong:
  "bids b' = bids b \<Longrightarrow> sorted_bids b' = sorted_bids b \<Longrightarrow> get_best_bid b' = get_best_bid b"
  by (simp add: get_best_bid_def split: list.splits)

lemma get_best_ask_cong:
  "asks b' = asks b \<Longrightarrow> sorted_asks b' = sorted_asks b \<Longrightarrow> get_best_ask b' = get_best_ask b"
  by (simp add: get_best_ask_def split: list.splits)

subsection \<open>Removing a level and putting it back\<close>

lemma bid_remove_restore:
  fixes c0 c :: "int option" and k1 k2 :: int
  assumes ok: "book_ok b" and pres: "bids b p \<noteq> None" and pos: "0 < s"
  defines "b1 \<equiv> snd (update_increment b (delta_bid p 0 c0 k1))"
  defines "b2 \<equiv> snd (update_increment b1 (delta_bid p s c k2))"
  shows "bids b1 p = None" and "- p \<notin> set (sorted_bids b1)"
    and "bids b2 = (bids b)(p \<mapsto> mk_level p s c)" and "sorted_bids b2 = sorted_bids b"
    and "asks b2 = asks b" and "sorted_asks b2 = sorted_asks b"
proof -
  from ok have sb: "sorted (sorted_bids b)" "distinct (sorted_bids b)"
      "set (sorted_bids b) = uminus ` dom (bids b)"
    by (simp_all add: book_ok_def side_ok_def)
  from pres sb have mem: "- p \<in> set (sorted_bids b)" by (auto simp: dom_def)
  have m1: "bids b1 = (bids b)(p := None)"
    and l1: "sorted_bids b1 = remove1 (- p) (sorted_bids b)"
    and a1: "asks b1 = asks b" "sorted_asks b1 = sorted_asks b"
    using pres by (simp_all add: b1_def update_delta_bid incr_bid_remove)
  show "bids b1 p = None" by (simp add: m1)
  show "- p \<notin> set (sorted_bids b1)" using sb by (simp add: l1)
  have none1: "bids b1 p = None" by (simp add: m1)
  from pos have nz: "s \<noteq> 0" by simp
  show "bids b2 = (bids b)(p \<mapsto> mk_level p s c)"
    by (simp add: b2_def update_delta_bid incr_bid_fresh [OF none1 nz] m1)
  show "sorted_bids b2 = sorted_bids b"
    by (simp add: b2_def update_delta_bid incr_bid_fresh [OF none1 nz] l1
        insort_right_remove1 [OF sb(1) sb(2) mem])
  show "asks b2 = asks b" "sorted_asks b2 = sorted_asks b"
    by (simp_all add: b2_def update_delta_bid a1)
qed

lemma ask_remove_restore:
  fixes c0 c :: "int option" and k1 k2 :: int
  assumes ok: "book_ok b" and pres: "asks b p \<noteq> None" and pos: "0 < s"
  defines "b1 \<equiv> snd (update_increment b (delta_ask p 0 c0 k1))"
  defines "b2 \<equiv> snd (update_increment b1 (delta_ask p s c k2))"
  shows "asks b1 p = None" and "p \<notin> set (sorted_asks b1)"
    and "asks b2 = (asks b)(p \<mapsto> mk_level p s c)" and "sorted_asks b2 = sorted_asks b"
    and "bids b2 = bids b" and "sorted_bids b2 = sorted_bids b"
proof -
  from ok have sa: "sorted (sorted_asks b)" "distinct (sorted_asks b)"
      "set (sorted_asks b) = dom (asks b)"
    by (simp_all add: book_ok_def side_ok_def)
  from pres sa have mem: "p \<in> set (sorted_asks b)" by (auto simp: dom_def)
  have m1: "asks b1 = (asks b)(p := None)"
    and l1: "sorted_asks b1 = remove1 p (sorted_asks b)"
    and a1: "bids b1 = bids b" "sorted_bids b1 = sorted_bids b"
    using pres by (simp_all add: b1_def update_delta_ask incr_ask_remove)
  show "asks b1 p = None" by (simp add: m1)
  show "p \<notin> set (sorted_asks b1)" using sa by (simp add: l1)
  have none1: "asks b1 p = None" by (simp add: m1)
  from pos have nz: "s \<noteq> 0" by simp
  show "asks b2 = (asks b)(p \<mapsto> mk_level p s c)"
    by (simp add: b2_def update_delta_ask incr_ask_fresh [OF none1 nz] m1)
  show "sorted_asks b2 = sorted_asks b"
    by (simp add: b2_def update_delta_ask incr_ask_fresh [OF none1 nz] l1
        insort_right_remove1 [OF sa(1) sa(2) mem])
  show "bids b2 = bids b" "sorted_bids b2 = sorted_bids b"
    by (simp_all add: b2_def update_delta_ask a1)
qed


lemma book_ok_scenario_book: "book_ok scenario_book"
  by (auto simp: book_ok_def side_ok_def scenario_book_def init_book_def)

lemma book_ok_bid_only_book: "book_ok bid_only_book"
  by (simp add: book_ok_def side_ok_def bid_only_book_def init_book_def)

text \<open>On a book whose sorted lists agree with its price maps, an incremental entry of size
  0 for a price that is present removes the level from the price map and from the sorted
  list; a following entry for the same price with a positive size leaves the side exactly as
  it was before, except that the level carries the new size. This holds for the bid side and
  for the ask side, whatever checksums the two messages carry.\<close>

lemma size_zero_removes_then_restores:
  fixes c0 c :: "int option" and k1 k2 :: int
  assumes "book_ok b" and "0 < s"
  shows
    "(bids b p \<noteq> None \<longrightarrow>
        (let b1 = snd (update_increment b (delta_bid p 0 c0 k1));
             b2 = snd (update_increment b1 (delta_bid p s c k2));
             b' = b\<lparr>bids := (bids b)(p \<mapsto> mk_level p s c)\<rparr>
         in bids b1 p = None \<and> - p \<notin> set (sorted_bids b1) \<and>
            bids b2 = (bids b)(p \<mapsto> mk_level p s c) \<and> sorted_bids b2 = sorted_bids b \<and>
            asks b2 = asks b \<and> sorted_asks b2 = sorted_asks b \<and>
            get_best_bid b2 = get_best_bid b' \<and> (\<forall>n. get_bids n b2 = get_bids n b'))) \<and>
     (asks b p \<noteq> None \<longrightarrow>
        (let b1 = snd (update_increment b (delta_ask p 0 c0 k1));
             b2 = snd (update_increment b1 (delta_ask p s c k2));
             b' = b\<lparr>asks := (asks b)(p \<mapsto> mk_level p s c)\<rparr>
         in asks b1 p = None \<and> p \<notin> set (sorted_asks b1) \<and>
            asks b2 = (asks b)(p \<mapsto> mk_level p s c) \<and> sorted_asks b2 = sorted_asks b \<and>
            bids b2 = bids b \<and> sorted_bids b2 = sorted_bids b \<and>
            get_best_ask b2 = get_best_ask b' \<and> (\<forall>n. get_asks n b2 = get_asks n b')))"
proof (intro conjI impI)
  assume pres: "bids b p \<noteq> None"
  note r = bid_remove_restore [OF assms(1) pres assms(2)]
  show "let b1 = snd (update_increment b (delta_bid p 0 c0 k1));
            b2 = snd (update_increment b1 (delta_bid p s c k2));
            b' = b\<lparr>bids := (bids b)(p \<mapsto> mk_level p s c)\<rparr>
        in bids b1 p = None \<and> - p \<notin> set (sorted_bids b1) \<and>
           bids b2 = (bids b)(p \<mapsto> mk_level p s c) \<and> sorted_bids b2 = sorted_bids b \<and>
           asks b2 = asks b \<and> sorted_asks b2 = sorted_asks b \<and>
           get_best_bid b2 = get_best_bid b' \<and> (\<forall>n. get_bids n b2 = get_bids n b')"
    unfolding Let_def
    using r by (auto intro!: get_best_bid_cong get_bids_cong)
next
  assume pres: "asks b p \<noteq> None"
  note r = ask_remove_restore [OF assms(1) pres assms(2)]
  show "let b1 = snd (update_increment b (delta_ask p 0 c0 k1));
            b2 = snd (update_increment b1 (delta_ask p s c k2));
            b' = b\<lparr>asks := (asks b)(p \<mapsto> mk_level p s c)\<rparr>
        in asks b1 p = None \<and> p \<notin> set (sorted_asks b1) \<and>
           asks b2 = (asks b)(p \<mapsto> mk_level p s c) \<and> sorted_asks b2 = sorted_asks b \<and>
           bids b2 = bids b \<and> sorted_bids b2 = sorted_bids b \<and>
           get_best_ask b2 = get_best_ask b' \<and> (\<forall>n. get_asks n b2 = get_asks n b')"
    unfolding Let_def
    using r by (auto intro!: get_best_ask_cong get_asks_cong)
qed

subsection \<open>A snapshot that names a price twice\<close>

text \<open>\<open>update_snapshot\<close> extends the sorted list for every entry of positive size; the
  incremental path looks first whether the price is already in the dictionary. A snapshot
  with two entries for the bid price 100 therefore leaves that price twice in the sorted
  list, and the book does not satisfy the invariant.\<close>

lemma duplicate_book_sides:
  "bids duplicate_book = [100 \<mapsto> mk_level 100 7 (Some 1), 99 \<mapsto> mk_level 99 3 (Some 1)]"
  "sorted_bids duplicate_book = [- 100, - 100, - 99]"
  "asks duplicate_book = [101 \<mapsto> mk_level 101 2 (Some 1)]"
  "sorted_asks duplicate_book = [101]"
  by (auto simp: duplicate_book_def update_snapshot_def duplicate_snapshot_def init_book_def
      snap_bid_def snap_ask_def Let_def)

lemma duplicate_book_not_ok: "\<not> book_ok duplicate_book"
  by (simp add: book_ok_def side_ok_def duplicate_book_sides)

lemma duplicate_book_removed:
  "bids (snd (update_increment duplicate_book (delta_bid 100 0 None k)))
     = [99 \<mapsto> mk_level 99 3 (Some 1)]"
  "sorted_bids (snd (update_increment duplicate_book (delta_bid 100 0 None k))) = [- 100, - 99]"
  by (auto simp: update_delta_bid incr_bid_def duplicate_book_sides)

lemma duplicate_book_restored:
  "bids (snd (update_increment (snd (update_increment duplicate_book (delta_bid 100 0 None k)))
       (delta_bid 100 8 (Some 1) k')))
     = [99 \<mapsto> mk_level 99 3 (Some 1), 100 \<mapsto> mk_level 100 8 (Some 1)]"
  "sorted_bids (snd (update_increment (snd (update_increment duplicate_book
       (delta_bid 100 0 None k))) (delta_bid 100 8 (Some 1) k')))
     = [- 100, - 100, - 99]"
  by (simp_all add: update_delta_bid [of _ 100 8] incr_bid_def duplicate_book_removed Let_def)

text \<open>
  \<^bold>\<open>Claim C6.\<close> The claim has a size-0 entry remove a present level from the price map and
  from the sorted list, and a following positive entry restore it with nothing left behind.
  On the book that a snapshot with two entries for the bid price 100 (and one for 99) leaves,
  the size-0 entry for 100 removes the level from the price map but leaves the price in the
  sorted list: the best bid is reported as \<open>(0, 0)\<close> although the level 99 remains. The
  following entry of size 8 puts the price into the sorted list a second time, and the depth
  query lists the level twice.
\<close>

theorem C6_duplicate_snapshot_price_leaves_residue:
  "bids duplicate_book 100 = Some (mk_level 100 7 (Some 1)) \<and>
   sorted_bids duplicate_book = [- 100, - 100, - 99] \<and>
   bids (snd (update_increment duplicate_book (delta_bid 100 0 None 0))) 100 = None \<and>
   sorted_bids (snd (update_increment duplicate_book (delta_bid 100 0 None 0)))
     = [- 100, - 99] \<and>
   get_best_bid (snd (update_increment duplicate_book (delta_bid 100 0 None 0))) = (0, 0) \<and>
   get_bids 5 (snd (update_increment duplicate_book (delta_bid 100 0 None 0))) = [(99, 3)] \<and>
   sorted_bids (snd (update_increment (snd (update_increment duplicate_book
       (delta_bid 100 0 None 0))) (delta_bid 100 8 (Some 1) 0)))
     = [- 100, - 100, - 99] \<and>
   get_bids 5 (snd (update_increment (snd (update_increment duplicate_book
       (delta_bid 100 0 None 0))) (delta_bid 100 8 (Some 1) 0)))
     = [(100, 8), (100, 8), (99, 3)]"
proof -
  have a: "bids duplicate_book 100 = Some (mk_level 100 7 (Some 1))"
    by (simp add: duplicate_book_sides)
  have b: "bids (snd (update_increment duplicate_book (delta_bid 100 0 None 0))) 100 = None"
    by (simp add: duplicate_book_removed)
  have c: "get_best_bid (snd (update_increment duplicate_book (delta_bid 100 0 None 0))) = (0, 0)"
    by (simp add: get_best_bid_def duplicate_book_removed)
  have d: "get_bids 5 (snd (update_increment duplicate_book (delta_bid 100 0 None 0)))
      = [(99, 3)]"
    by (simp add: get_bids_def duplicate_book_removed List.map_filter_simps mk_level_def)
  have e: "get_bids 5 (snd (update_increment (snd (update_increment duplicate_book
       (delta_bid 100 0 None 0))) (delta_bid 100 8 (Some 1) 0)))
     = [(100, 8), (100, 8), (99, 3)]"
    by (simp add: get_bids_def duplicate_book_restored List.map_filter_simps mk_level_def)
  from a b c d e show ?thesis
    by (simp add: duplicate_book_sides duplicate_book_removed duplicate_book_restored)
qed

subsection \<open>An empty side\<close>

lemma get_best_bid_empty:
  "sorted_bids b = [] \<or> bids b = Map.empty \<Longrightarrow> get_best_bid b = (0, 0)"
  by (auto simp: get_best_bid_def split: list.splits)

lemma get_best_ask_empty:
  "sorted_asks b = [] \<or> asks b = Map.empty \<Longrightarrow> get_best_ask b = (0, 0)"
  by (auto simp: get_best_ask_def split: list.splits)

text \<open>
  \<^bold>\<open>Claim C10.\<close> When the bid side is empty (its sorted list or its price map has no
  entry) \<open>get_best_bid\<close> returns the pair \<open>(0, 0)\<close>, and likewise \<open>get_best_ask\<close> for the
  ask side; neither fails. When either side is empty, \<open>get_spread\<close> and \<open>get_spread_bps\<close>
  both return 0.
\<close>

theorem C10_empty_side_sentinel:
  "(sorted_bids b = [] \<or> bids b = Map.empty \<longrightarrow> get_best_bid b = (0, 0)) \<and>
   (sorted_asks b = [] \<or> asks b = Map.empty \<longrightarrow> get_best_ask b = (0, 0)) \<and>
   (sorted_bids b = [] \<or> bids b = Map.empty \<or> sorted_asks b = [] \<or> asks b = Map.empty \<longrightarrow>
      get_spread b = 0 \<and> get_spread_bps b = 0)"
proof (intro conjI impI)
  assume "sorted_bids b = [] \<or> bids b = Map.empty"
  then show "get_best_bid b = (0, 0)" by (rule get_best_bid_empty)
next
  assume "sorted_asks b = [] \<or> asks b = Map.empty"
  then show "get_best_ask b = (0, 0)" by (rule get_best_ask_empty)
next
  assume "sorted_bids b = [] \<or> bids b = Map.empty \<or> sorted_asks b = [] \<or> asks b = Map.empty"
  then have "get_best_bid b = (0, 0) \<or> get_best_ask b = (0, 0)"
    using get_best_bid_empty [of b] get_best_ask_empty [of b] by blast
  then have sp: "get_spread b = 0" by (auto simp: get_spread_def Let_def)
  show "get_spread b = 0" by (rule sp)
  show "get_spread_bps b = 0" by (simp add: get_spread_bps_def sp Let_def)
qed

theorem C10_witness:
  "sorted_asks bid_only_book = [] \<and> get_best_ask bid_only_book = (0, 0) \<and>
   get_best_bid bid_only_book = (100, 5) \<and>
   get_spread bid_only_book = 0 \<and> get_spread_bps bid_only_book = 0"
proof -
  have e: "sorted_asks bid_only_book = []"
    by (simp add: bid_only_book_def init_book_def)
  have bb: "get_best_bid bid_only_book = (100, 5)"
    by (simp add: get_best_bid_def bid_only_book_def init_book_def mk_level_def)
  show ?thesis
    using C10_empty_side_sentinel [of bid_only_book] e bb by simp
qed


subsection \<open>The depth queries return the best levels in price order\<close>

lemma sorted_neg_rev:
  fixes xs :: "real list"
  shows "sorted (rev (map uminus xs)) = sorted xs"
  by (simp add: sorted_wrt_rev sorted_wrt_map)

lemma neg_list_eq:
  fixes xs :: "real list"
  assumes "side_ok xs (uminus ` K)"
  shows "map uminus xs = rev (sorted_list_of_set K)"
proof -
  from assms have s: "sorted xs" and d: "distinct xs" and e: "set xs = uminus ` K"
    by (simp_all add: side_ok_def)
  let ?ys = "rev (map uminus xs)"
  have "sorted ?ys" using s by (simp add: sorted_neg_rev)
  moreover have "distinct ?ys" using d by (simp add: distinct_map inj_on_def)
  moreover have "set ?ys = K" using e by (force simp: image_image)
  ultimately have "sorted_list_of_set K = ?ys"
    by (metis sorted_list_of_set.idem_if_sorted_distinct)
  then show ?thesis by (simp add: rev_map)
qed

lemma pos_list_eq:
  fixes xs :: "real list"
  assumes "side_ok xs K"
  shows "xs = sorted_list_of_set K"
  using assms by (metis side_ok_def sorted_list_of_set.idem_if_sorted_distinct)

lemma map_filter_all:
  assumes "\<And>x. x \<in> set xs \<Longrightarrow> f x = Some (g x)"
  shows "List.map_filter f xs = map g xs"
  using assms by (induction xs) (simp_all add: List.map_filter_simps)

lemma get_bids_top:
  assumes "book_ok b"
  shows "get_bids n b = top_bid_levels (nat n) b"
proof -
  from assms have sb: "side_ok (sorted_bids b) (uminus ` dom (bids b))"
    by (simp add: book_ok_def)
  have pres: "\<And>np. np \<in> set (take (nat n) (sorted_bids b)) \<Longrightarrow>
      (case bids b (- np) of None \<Rightarrow> None | Some l \<Rightarrow> Some (- np, size_l l))
        = Some (- np, size_l (the (bids b (- np))))"
  proof -
    fix np assume "np \<in> set (take (nat n) (sorted_bids b))"
    then have "np \<in> set (sorted_bids b)" by (rule in_set_takeD)
    with sb have "np \<in> uminus ` dom (bids b)" by (simp add: side_ok_def)
    then have "- np \<in> dom (bids b)" by auto
    then show "(case bids b (- np) of None \<Rightarrow> None | Some l \<Rightarrow> Some (- np, size_l l))
        = Some (- np, size_l (the (bids b (- np))))" by auto
  qed
  have "get_bids n b =
      map (\<lambda>np. (- np, size_l (the (bids b (- np))))) (take (nat n) (sorted_bids b))"
    unfolding get_bids_def by (rule map_filter_all) (rule pres)
  also have "\<dots> = map (\<lambda>p. (p, size_l (the (bids b p))))
      (take (nat n) (map uminus (sorted_bids b)))"
    by (simp add: take_map comp_def)
  finally show ?thesis by (simp add: top_bid_levels_def neg_list_eq [OF sb])
qed

lemma get_asks_top:
  assumes "book_ok b"
  shows "get_asks n b = top_ask_levels (nat n) b"
proof -
  from assms have sa: "side_ok (sorted_asks b) (dom (asks b))"
    by (simp add: book_ok_def)
  have pres: "\<And>p. p \<in> set (take (nat n) (sorted_asks b)) \<Longrightarrow>
      (case asks b p of None \<Rightarrow> None | Some l \<Rightarrow> Some (p, size_l l))
        = Some (p, size_l (the (asks b p)))"
  proof -
    fix p assume "p \<in> set (take (nat n) (sorted_asks b))"
    then have "p \<in> set (sorted_asks b)" by (rule in_set_takeD)
    with sa have "p \<in> dom (asks b)" by (simp add: side_ok_def)
    then show "(case asks b p of None \<Rightarrow> None | Some l \<Rightarrow> Some (p, size_l l))
        = Some (p, size_l (the (asks b p)))" by auto
  qed
  have "get_asks n b = map (\<lambda>p. (p, size_l (the (asks b p)))) (take (nat n) (sorted_asks b))"
    unfolding get_asks_def by (rule map_filter_all) (rule pres)
  then show ?thesis using pos_list_eq [OF sa] by (simp add: top_ask_levels_def)
qed

lemma foldl_append_pieces:
  "foldl (\<lambda>s x. s @ f x) acc xs = acc @ concat (map f xs)"
  by (induction xs arbitrary: acc) simp_all

lemma checksum_str_concat:
  "checksum_str b = concat (map checksum_piece (get_bids 25 b @ get_asks 25 b))"
  by (simp add: checksum_str_def foldl_append_pieces)

lemma concat_terminated:
  "concat (map (\<lambda>f. f @ sep) fs) = (if fs = [] then [] else join_sep sep fs @ sep)"
  by (induction sep fs rule: join_sep.induct) simp_all

lemma pieces_fields:
  "concat (map checksum_piece lvs) =
   concat (map (\<lambda>f. f @ '':'') (concat (map (\<lambda>lv. [fmt_0f (fst lv), fmt_0f (snd lv)]) lvs)))"
  by (induction lvs) (simp_all add: checksum_piece_def)

lemma mask32: "(w :: 32 word) AND 0xFFFFFFFF = w"
proof -
  have h: "(0xFFFFFFFF :: 32 word) = - 1" by simp
  show ?thesis unfolding h by (rule and.right_neutral)
qed


lemma checksum_fields_code:
  assumes "book_ok b"
  shows "checksum_fields b =
    concat (map (\<lambda>lv. [fmt_0f (fst lv), fmt_0f (snd lv)]) (get_bids 25 b @ get_asks 25 b))"
  using get_bids_top [OF assms, of 25] get_asks_top [OF assms, of 25]
  by (simp add: checksum_fields_def)

lemma checksum_str_fields:
  assumes "book_ok b"
  shows "checksum_str b =
    (if checksum_fields b = [] then [] else join_sep '':'' (checksum_fields b) @ '':'')"
  unfolding checksum_str_concat pieces_fields checksum_fields_code [OF assms]
  by (rule concat_terminated)

lemma fmt_0f_examples:
  "fmt_0f 100 = ''100''" "fmt_0f 99 = ''99''" "fmt_0f 101 = ''101''"
  "fmt_0f 5 = ''5''" "fmt_0f 3 = ''3''" "fmt_0f 2 = ''2''"
  by (simp_all add: fmt_0f_def round_half_even_def str_nat.simps digit_char_def Let_def)

lemma levels_bid_only_book:
  "get_bids 25 bid_only_book = [(100, 5)]" "get_asks 25 bid_only_book = []"
  by (simp_all add: get_bids_def get_asks_def bid_only_book_def init_book_def mk_level_def
      List.map_filter_simps)

lemma levels_scenario_book:
  "get_bids 25 scenario_book = [(100, 5), (99, 3)]" "get_asks 25 scenario_book = [(101, 2)]"
  by (simp_all add: get_bids_def get_asks_def scenario_book_def init_book_def mk_level_def
      List.map_filter_simps)

text \<open>The check value of CRC-32.\<close>

lemma crc32_check_value: "crc32 ''123456789'' = 0xCBF43926"
  by code_simp

lemma crc32_examples:
  "crc32 ''100:5:'' = 1647267534" "crc32 ''100:5'' = 4248396096"
  "crc32 ''100:5:99:3:101:2:'' = 2284997975"
  by code_simp+

lemma checksum_bid_only_book: "calculate_checksum bid_only_book = 1647267534"
  by (simp add: calculate_checksum_def checksum_str_concat levels_bid_only_book
      checksum_piece_def fmt_0f_examples crc32_examples mask32)

text \<open>
  \<^bold>\<open>Claim C1, as amended.\<close> On a book whose sorted lists agree with its price maps, the
  checksum is the CRC-32 (an unsigned 32-bit value) of this string: the fields
  \<open>price, size\<close> of the best 25 bid levels in descending price order, then of the best 25 ask
  levels in ascending price order, each field formatted with \<^verbatim>\<open>:.0f\<close> (nearest integer,
  ties to even), joined by \<open>:\<close> and, when there is at least one level, followed by one
  more \<open>:\<close> at the end.
\<close>

theorem C1_checksum_is_crc_of_terminated_fields:
  assumes "book_ok b"
  shows "calculate_checksum b =
           uint (crc32 (join_sep '':'' (checksum_fields b) @
                        (if checksum_fields b = [] then [] else '':''))) \<and>
         0 \<le> calculate_checksum b \<and> calculate_checksum b < 2 ^ 32"
proof -
  have "calculate_checksum b = uint (crc32 (checksum_str b))"
    by (simp only: calculate_checksum_def mask32)
  moreover have "0 \<le> uint (crc32 (checksum_str b)) \<and> uint (crc32 (checksum_str b)) < 2 ^ 32"
    using uint_bounded [of "crc32 (checksum_str b)"] by simp
  ultimately show ?thesis
    by (simp add: checksum_str_fields [OF assms])
qed

theorem C1_witness:
  "book_ok scenario_book \<and>
   checksum_fields scenario_book = [''100'', ''5'', ''99'', ''3'', ''101'', ''2''] \<and>
   calculate_checksum scenario_book = 2284997975"
proof -
  have f: "checksum_fields scenario_book = [''100'', ''5'', ''99'', ''3'', ''101'', ''2'']"
    by (simp add: checksum_fields_code [OF book_ok_scenario_book] levels_scenario_book
        fmt_0f_examples)
  show ?thesis
    using C1_checksum_is_crc_of_terminated_fields [OF book_ok_scenario_book]
    by (simp add: f book_ok_scenario_book crc32_examples)
qed

text \<open>The claim as stated, with no separator after the last field, fails on the book that
  holds the single bid level 100 with size 5: the source hashes \<open>100:5:\<close>, the claim
  \<open>100:5\<close>.\<close>

theorem C1_counterexample:
  "calculate_checksum bid_only_book
     \<noteq> uint (crc32 (join_sep '':'' (checksum_fields bid_only_book)))"
proof -
  have f: "checksum_fields bid_only_book = [''100'', ''5'']"
    by (simp add: checksum_fields_code [OF book_ok_bid_only_book] levels_bid_only_book
        fmt_0f_examples)
  show ?thesis
    by (simp add: f checksum_bid_only_book crc32_examples)
qed


subsection \<open>A checksum mismatch on an incremental update\<close>

lemma incr_bid_bids:
  "bids (incr_bid b p s c) = (if s = 0 then (bids b)(p := None) else (bids b)(p \<mapsto> mk_level p s c))"
  by (auto simp: incr_bid_def Let_def)

lemma incr_ask_asks:
  "asks (incr_ask b p s c) = (if s = 0 then (asks b)(p := None) else (asks b)(p \<mapsto> mk_level p s c))"
  by (auto simp: incr_ask_def Let_def)

lemma incr_bid_counters [simp]:
  "error_count (incr_bid b p s c) = error_count b"
  "update_count (incr_bid b p s c) = update_count b"
  "checksum (incr_bid b p s c) = checksum b"
  by (simp_all add: incr_bid_def Let_def)

lemma incr_ask_counters [simp]:
  "error_count (incr_ask b p s c) = error_count b"
  "update_count (incr_ask b p s c) = update_count b"
  "checksum (incr_ask b p s c) = checksum b"
  by (simp_all add: incr_ask_def Let_def)

lemma incr_bids_loop_effect:
  "bids (fst (incr_bids_loop b ls)) = apply_levels (bids b) ls"
  "asks (fst (incr_bids_loop b ls)) = asks b"
  "error_count (fst (incr_bids_loop b ls)) = error_count b"
  "update_count (fst (incr_bids_loop b ls)) = update_count b"
  "checksum (fst (incr_bids_loop b ls)) = checksum b"
  by (induction b ls rule: incr_bids_loop.induct) (simp_all add: incr_bid_bids)

lemma incr_asks_loop_effect:
  "asks (fst (incr_asks_loop b ls)) = apply_levels (asks b) ls"
  "bids (fst (incr_asks_loop b ls)) = bids b"
  "error_count (fst (incr_asks_loop b ls)) = error_count b"
  "update_count (fst (incr_asks_loop b ls)) = update_count b"
  "checksum (fst (incr_asks_loop b ls)) = checksum b"
  by (induction b ls rule: incr_asks_loop.induct) (simp_all add: incr_ask_asks)

lemma incr_bids_loop_no_error: "Malformed \<notin> set ls \<Longrightarrow> snd (incr_bids_loop b ls) = None"
  by (induction b ls rule: incr_bids_loop.induct) simp_all

lemma incr_asks_loop_no_error: "Malformed \<notin> set ls \<Longrightarrow> snd (incr_asks_loop b ls) = None"
  by (induction b ls rule: incr_asks_loop.induct) simp_all

lemma calculate_checksum_cong:
  assumes "bids b' = bids b" "asks b' = asks b"
    and "sorted_bids b' = sorted_bids b" "sorted_asks b' = sorted_asks b"
  shows "calculate_checksum b' = calculate_checksum b"
  using assms by (simp add: calculate_checksum_def checksum_str_def get_bids_def get_asks_def)

text \<open>
  \<^bold>\<open>Claim C2, as amended.\<close> When every entry of an incremental message parses and the
  checksum recomputed on the updated book differs from the one the message carries,
  \<open>update_increment\<close> returns \<open>False\<close> and does not roll back: \<open>error_count\<close> grows by exactly
  1, the bid and ask maps are the old ones with every entry of the message applied, and the
  stored \<open>checksum\<close> and \<open>update_count\<close> keep their old values. The replica has no field that
  records consistency.
\<close>

theorem C2_mismatch_commits_and_counts:
  assumes "Malformed \<notin> set (d_bids d)" and "Malformed \<notin> set (d_asks d)"
    and "calculate_checksum (snd (update_increment b d)) \<noteq> d_checksum d"
  shows "fst (update_increment b d) = False \<and>
         error_count (snd (update_increment b d)) = error_count b + 1 \<and>
         bids (snd (update_increment b d)) = apply_levels (bids b) (d_bids d) \<and>
         asks (snd (update_increment b d)) = apply_levels (asks b) (d_asks d) \<and>
         checksum (snd (update_increment b d)) = checksum b \<and>
         update_count (snd (update_increment b d)) = update_count b"
proof -
  obtain b1 where l1: "incr_bids_loop b (d_bids d) = (b1, None)"
    using incr_bids_loop_no_error [OF assms(1), of b] by (cases "incr_bids_loop b (d_bids d)") simp
  obtain b2 where l2: "incr_asks_loop b1 (d_asks d) = (b2, None)"
    using incr_asks_loop_no_error [OF assms(2), of b1]
    by (cases "incr_asks_loop b1 (d_asks d)") simp
  have e1: "bids b1 = apply_levels (bids b) (d_bids d)" "asks b1 = asks b"
      "error_count b1 = error_count b" "update_count b1 = update_count b"
      "checksum b1 = checksum b"
    using incr_bids_loop_effect [of b "d_bids d"] l1 by simp_all
  have e2: "asks b2 = apply_levels (asks b1) (d_asks d)" "bids b2 = bids b1"
      "error_count b2 = error_count b1" "update_count b2 = update_count b1"
      "checksum b2 = checksum b1"
    using incr_asks_loop_effect [of b1 "d_asks d"] l2 by simp_all
  have same: "calculate_checksum (snd (update_increment b d)) = calculate_checksum b2"
    by (rule calculate_checksum_cong) (simp_all add: update_increment_sides [OF l1 l2])
  with assms(3) have mm: "calculate_checksum b2 \<noteq> d_checksum d" by simp
  have res: "update_increment b d = (False, b2\<lparr>error_count := error_count b2 + 1\<rparr>)"
    using l1 l2 mm by (simp add: update_increment_def)
  show ?thesis
    by (simp add: res e1 e2)
qed

theorem C2_witness:
  "Malformed \<notin> set (d_bids (delta_bid 100 5 (Some 1) 0)) \<and>
   Malformed \<notin> set (d_asks (delta_bid 100 5 (Some 1) 0)) \<and>
   calculate_checksum (snd (update_increment init_book (delta_bid 100 5 (Some 1) 0)))
     \<noteq> d_checksum (delta_bid 100 5 (Some 1) 0) \<and>
   fst (update_increment init_book (delta_bid 100 5 (Some 1) 0)) = False \<and>
   error_count (snd (update_increment init_book (delta_bid 100 5 (Some 1) 0))) = 1 \<and>
   bids (snd (update_increment init_book (delta_bid 100 5 (Some 1) 0)))
     = [100 \<mapsto> mk_level 100 5 (Some 1)]"
proof -
  have w1: "Malformed \<notin> set (d_bids (delta_bid 100 5 (Some 1) 0))"
    and w2: "Malformed \<notin> set (d_asks (delta_bid 100 5 (Some 1) 0))"
    by (simp_all add: delta_bid_def)
  have "calculate_checksum (snd (update_increment init_book (delta_bid 100 5 (Some 1) 0)))
      = calculate_checksum bid_only_book"
    by (rule calculate_checksum_cong)
      (simp_all add: update_delta_bid incr_bid_def bid_only_book_def init_book_def)
  then have w3: "calculate_checksum (snd (update_increment init_book (delta_bid 100 5 (Some 1) 0)))
      \<noteq> d_checksum (delta_bid 100 5 (Some 1) 0)"
    by (simp add: checksum_bid_only_book delta_bid_def)
  show ?thesis
    using C2_mismatch_commits_and_counts [OF w1 w2 w3] w1 w2 w3
    by (simp add: delta_bid_def init_book_def)
qed

text \<open>The claim as stated speaks of a consistency flag that becomes false. The message
  with the single bid entry \<open>[100, 5, 1]\<close> and checksum 0, applied to the empty book,
  mismatches; the state afterwards is the empty book with that one bid level in its bid map
  and bid list and with \<open>error_count\<close> 1. Nothing else has changed, and the record of the
  replica has no field that is a flag.\<close>

theorem C2_counterexample:
  "update_increment init_book (delta_bid 100 5 (Some 1) 0)
     = (False, bid_only_book\<lparr>error_count := 1\<rparr>)"
proof -
  have b1: "incr_bid init_book 100 5 (Some 1) = bid_only_book"
    by (simp add: incr_bid_def bid_only_book_def init_book_def)
  show ?thesis
    by (simp add: update_increment_def delta_bid_def b1 checksum_bid_only_book)
      (simp add: bid_only_book_def init_book_def)
qed

section \<open>Properties of the kill switch\<close>

lemma cancel_sweep_log: "fst (cancel_sweep acc ps) = acc @ sweep_ids ps"
  by (induction acc ps rule: cancel_sweep.induct) (simp_all add: sweep_ids_def)

lemma monitor_tick_triggered: "is_triggered s \<Longrightarrow> monitor_tick s env = s"
  by (simp add: monitor_tick_def)

lemma monitor_loop_triggered: "is_triggered s \<Longrightarrow> monitor_loop s envs = s"
  by (induction envs) (simp_all add: monitor_tick_triggered)

lemma monitor_loop_append:
  "monitor_loop s (xs @ ys) = monitor_loop (monitor_loop s xs) ys"
  by (induction xs arbitrary: s) simp_all

lemma update_data_keeps:
  assumes "update_data s env = Inr s1"
  shows "is_triggered s1 = is_triggered s" "cancel_log s1 = cancel_log s"
    "daily_start_balance s1 = daily_start_balance s"
    "max_daily_loss_ratio s1 = max_daily_loss_ratio s"
    "trigger_reason s1 = trigger_reason s" "trigger_time s1 = trigger_time s"
  using assms
  by (auto simp: update_data_def Let_def split: balance_reply.splits if_splits)

lemma update_data_balance:
  "e_balance env = Equity bal \<Longrightarrow> \<exists>s1. update_data s env = Inr s1 \<and> current_balance s1 = bal"
  by (simp add: update_data_def Let_def)

lemma check_conditions_quiet:
  "\<not> is_triggered s \<Longrightarrow> \<not> is_triggered (fst (check_conditions s env)) \<Longrightarrow>
     fst (check_conditions s env) = s"
  by (auto simp: check_conditions_def trigger_def Let_def split: if_splits)

lemma monitor_tick_quiet:
  assumes "\<not> is_triggered (monitor_tick s env)"
  shows "\<not> is_triggered s \<and> cancel_log (monitor_tick s env) = cancel_log s \<and>
    daily_start_balance (monitor_tick s env) = daily_start_balance s \<and>
    max_daily_loss_ratio (monitor_tick s env) = max_daily_loss_ratio s"
proof -
  have nt: "\<not> is_triggered s"
    using assms by (auto simp: monitor_tick_def)
  show ?thesis
  proof (cases "update_data s env")
    case (Inl e)
    with nt show ?thesis by (simp add: monitor_tick_def)
  next
    case (Inr s1)
    with nt have mt: "monitor_tick s env = fst (check_conditions s1 env)"
      by (simp add: monitor_tick_def)
    from update_data_keeps [OF Inr] nt have "\<not> is_triggered s1" by simp
    with assms mt have "fst (check_conditions s1 env) = s1"
      by (simp add: check_conditions_quiet)
    with mt update_data_keeps [OF Inr] nt show ?thesis by simp
  qed
qed

lemma monitor_loop_quiet:
  "\<not> is_triggered (monitor_loop s envs) \<Longrightarrow>
     \<not> is_triggered s \<and> cancel_log (monitor_loop s envs) = cancel_log s \<and>
     daily_start_balance (monitor_loop s envs) = daily_start_balance s \<and>
     max_daily_loss_ratio (monitor_loop s envs) = max_daily_loss_ratio s"
proof (induction envs arbitrary: s)
  case Nil
  then show ?case by simp
next
  case (Cons env envs)
  from Cons.prems have q: "\<not> is_triggered (monitor_loop (monitor_tick s env) envs)" by simp
  from Cons.IH [OF q] have nt: "\<not> is_triggered (monitor_tick s env)" by simp
  from Cons.IH [OF q] monitor_tick_quiet [OF nt] show ?case by simp
qed

lemma monitor_loop_quiet_prefix:
  assumes "\<not> is_triggered (monitor_loop s envs)"
  shows "\<not> is_triggered (monitor_loop s (take k envs))"
proof -
  have "monitor_loop s envs = monitor_loop (monitor_loop s (take k envs)) (drop k envs)"
    by (metis append_take_drop_id monitor_loop_append)
  with assms monitor_loop_quiet [of "monitor_loop s (take k envs)" "drop k envs"]
  show ?thesis by simp
qed

lemma monitor_tick_daily_loss:
  assumes nt: "\<not> is_triggered s" and start: "0 < daily_start_balance s"
    and bal: "e_balance env = Equity bal"
    and loss: "max_daily_loss_ratio s < loss_ratio_at s bal"
  shows "is_triggered (monitor_tick s env) \<and>
    trigger_reason (monitor_tick s env) = ''daily_loss'' \<and>
    trigger_time (monitor_tick s env) = Some (e_now env) \<and>
    cancel_log (monitor_tick s env) = cancel_log s @ sweep_ids (e_positions env)"
proof -
  obtain s1 where u: "update_data s env = Inr s1" and cb: "current_balance s1 = bal"
    using update_data_balance [OF bal, of s] by blast
  from nt u have mt: "monitor_tick s env = fst (check_conditions s1 env)"
    by (simp add: monitor_tick_def)
  from start loss cb update_data_keeps [OF u]
  have cc: "check_conditions s1 env = trigger s1 env ''daily_loss''"
    by (simp add: check_conditions_def loss_ratio_at_def)
  show ?thesis
    using update_data_keeps [OF u]
    by (simp add: mt cc trigger_def Let_def cancel_sweep_log)
qed

text \<open>
  \<^bold>\<open>Claim C3.\<close> Let the switch run a sequence of monitor ticks \<open>pre\<close> without tripping,
  from a positive start-of-day balance, and let the next tick report a balance whose loss
  ratio exceeds \<open>max_daily_loss_ratio\<close> (5% by default). Then, whatever ticks \<open>post\<close>
  follow: the switch is not triggered after any of the first \<open>length pre\<close> ticks and is
  triggered after every later one, so it goes from false to true exactly once; the state no
  longer changes after the trip; the reason is \<open>daily_loss\<close> and the trigger time is the clock
  of the tripping tick; the log of cancel-all calls has grown by exactly one sweep over the
  positions reported at the trip (one call for each position), however many ticks follow; the
  switch stays unsafe, and \<open>reset\<close> makes it safe again.
\<close>

theorem C3_daily_loss_trips_once:
  assumes quiet: "\<not> is_triggered (monitor_loop s pre)"
    and start: "0 < daily_start_balance s"
    and bal: "e_balance env = Equity bal"
    and loss: "max_daily_loss_ratio s < loss_ratio_at s bal"
  shows
    "(\<forall>k\<le>length pre. \<not> is_triggered (monitor_loop s (take k (pre @ env # post)))) \<and>
     (\<forall>k>length pre. is_triggered (monitor_loop s (take k (pre @ env # post))) \<and>
        monitor_loop s (take k (pre @ env # post)) = monitor_loop s (pre @ [env])) \<and>
     monitor_loop s (pre @ env # post) = monitor_loop s (pre @ [env]) \<and>
     trigger_reason (monitor_loop s (pre @ env # post)) = ''daily_loss'' \<and>
     trigger_time (monitor_loop s (pre @ env # post)) = Some (e_now env) \<and>
     cancel_log (monitor_loop s (pre @ env # post))
       = cancel_log s @ sweep_ids (e_positions env) \<and>
     \<not> is_safe (monitor_loop s (pre @ env # post)) \<and>
     is_safe (reset (monitor_loop s (pre @ env # post)))"
proof -
  define sp where "sp = monitor_loop s pre"
  define st where "st = monitor_tick sp env"
  from monitor_loop_quiet [OF quiet]
  have keep: "cancel_log sp = cancel_log s" "daily_start_balance sp = daily_start_balance s"
      "max_daily_loss_ratio sp = max_daily_loss_ratio s"
    by (simp_all add: sp_def)
  have nt: "\<not> is_triggered sp" using quiet by (simp add: sp_def)
  have start': "0 < daily_start_balance sp" using start keep by simp
  have loss': "max_daily_loss_ratio sp < loss_ratio_at sp bal"
    using loss keep by (simp add: loss_ratio_at_def)
  note trip = monitor_tick_daily_loss [OF nt start' bal loss', folded st_def]
  have tr: "is_triggered st" using trip by simp
  have upto: "monitor_loop s (pre @ [env]) = st"
    by (simp add: monitor_loop_append sp_def st_def)
  have after: "monitor_loop s (pre @ env # ys) = st" for ys
    using monitor_loop_triggered [OF tr, of ys]
    by (simp add: monitor_loop_append sp_def st_def)
  have early: "\<not> is_triggered (monitor_loop s (take k (pre @ env # post)))"
    if "k \<le> length pre" for k
  proof -
    from that have "take k (pre @ env # post) = take k pre" by simp
    with monitor_loop_quiet_prefix [OF quiet, of k] show ?thesis by simp
  qed
  have late: "monitor_loop s (take k (pre @ env # post)) = st" if "length pre < k" for k
  proof -
    from that obtain j where k: "k = length pre + Suc j"
      by (metis less_iff_Suc_add add_Suc_right)
    have "take k (pre @ env # post) = pre @ env # take j post"
      by (simp add: k)
    then show ?thesis by (simp add: after)
  qed
  show ?thesis
    using early late tr trip keep
    by (simp add: after upto is_safe_def reset_def)
qed

theorem C3_witness:
  "\<not> is_triggered (monitor_loop started_switch [tick_at 1000 1, tick_at 980 2, tick_at 960 3]) \<and>
   0 < daily_start_balance started_switch \<and>
   max_daily_loss_ratio started_switch < loss_ratio_at started_switch 940 \<and>
   is_triggered (monitor_loop started_switch
     ([tick_at 1000 1, tick_at 980 2, tick_at 960 3] @ tick_at 940 4 #
        [tick_at 930 5, tick_at 900 6])) \<and>
   trigger_reason (monitor_loop started_switch
     ([tick_at 1000 1, tick_at 980 2, tick_at 960 3] @ tick_at 940 4 #
        [tick_at 930 5, tick_at 900 6])) = ''daily_loss'' \<and>
   trigger_time (monitor_loop started_switch
     ([tick_at 1000 1, tick_at 980 2, tick_at 960 3] @ tick_at 940 4 #
        [tick_at 930 5, tick_at 900 6])) = Some 4 \<and>
   cancel_log (monitor_loop started_switch
     ([tick_at 1000 1, tick_at 980 2, tick_at 960 3] @ tick_at 940 4 #
        [tick_at 930 5, tick_at 900 6])) = [''BTC-USDT-SWAP'']"
proof -
  have q: "\<not> is_triggered (monitor_loop started_switch
      [tick_at 1000 1, tick_at 980 2, tick_at 960 3])"
    by (simp add: started_switch_def init_kill_switch_def tick_at_def monitor_tick_def
        update_data_def check_conditions_def Let_def)
  have st: "0 < daily_start_balance started_switch"
    by (simp add: started_switch_def init_kill_switch_def)
  have b: "e_balance (tick_at 940 4) = Equity 940" by (simp add: tick_at_def)
  have l: "max_daily_loss_ratio started_switch < loss_ratio_at started_switch 940"
    by (simp add: started_switch_def init_kill_switch_def loss_ratio_at_def)
  have c: "cancel_log started_switch = []"
    by (simp add: started_switch_def init_kill_switch_def)
  have sw: "sweep_ids (e_positions (tick_at 940 4)) = [''BTC-USDT-SWAP'']"
    by (simp add: tick_at_def sweep_ids_def)
  have n: "e_now (tick_at 940 4) = 4" by (simp add: tick_at_def)
  note t = C3_daily_loss_trips_once [OF q st b l, of "[tick_at 930 5, tick_at 900 6]",
      unfolded c sw n append_Nil is_safe_def]
  show ?thesis using t q st l by blast
qed

section \<open>Properties of the pre-trade gate\<close>

lemma pre_trade_check_emergency_stop:
  "emergency_stop rm \<Longrightarrow> pre_trade_check rm inst_id side sz px = Inr ((False, EmergencyStop), rm)"
  by (simp add: pre_trade_check_def)

lemma pre_trade_check_daily_loss:
  "\<not> emergency_stop rm \<Longrightarrow> daily_loss_ratio (metrics rm) \<le> - max_daily_loss rm \<Longrightarrow>
     pre_trade_check rm inst_id side sz px =
       Inr ((False, DailyLossReached (daily_loss_ratio (metrics rm))), rm\<lparr>emergency_stop := True\<rparr>)"
  by (simp add: pre_trade_check_def)

lemma pre_trade_check_returns:
  "leverage_limit rm \<noteq> 0 \<Longrightarrow> total_balance (metrics rm) \<noteq> 0 \<Longrightarrow>
     \<exists>r. pre_trade_check rm inst_id side sz px = Inr r"
  by (auto simp: pre_trade_check_def Let_def)

lemma pre_trade_check_raises_iff:
  "(\<exists>e. pre_trade_check rm inst_id side sz px = Inl e) \<longleftrightarrow>
     \<not> emergency_stop rm \<and> - max_daily_loss rm < daily_loss_ratio (metrics rm) \<and>
     sz * px \<le> max_position_size rm \<and>
     (leverage_limit rm = 0 \<or>
      sz * px / real_of_int (leverage_limit rm) \<le> available_balance (metrics rm) \<and>
      total_balance (metrics rm) = 0)"
  by (auto simp: pre_trade_check_def Let_def)

text \<open>
  \<^bold>\<open>Claim C4.\<close> The gate is claimed to return a \<open>(passed, reason)\<close> pair and never to
  raise, for every candidate and every state. On a manager as the constructor leaves it
  (total balance 0, no emergency stop), a candidate with price 0, as a market order has it,
  passes the first four checks, and the leverage check then divides by the total balance:
  the call ends in \<^verbatim>\<open>ZeroDivisionError\<close> and returns no pair.
\<close>

theorem C4_gate_raises_on_zero_balance:
  "pre_trade_check init_risk_manager ''BTC-USDT'' ''buy'' (1 / 100) 0 = Inl ZeroDivisionError"
  by (simp add: pre_trade_check_def init_risk_manager_def Let_def)

section \<open>Properties of the message dispatch\<close>

lemma run_callbacks_no_raise:
  "\<forall>cb\<in>set l. \<forall>v. snd (cb payload v) = None \<Longrightarrow>
     run_callbacks l payload w = (fold (\<lambda>cb v. fst (cb payload v)) l w, None)"
proof (induction l arbitrary: w)
  case Nil
  then show ?case by simp
next
  case (Cons cb l)
  from Cons.prems have "snd (cb payload w) = None" by simp
  then obtain w' where c: "cb payload w = (w', None)" by (cases "cb payload w") simp
  from Cons.prems have "\<forall>cb\<in>set l. \<forall>v. snd (cb payload v) = None" by simp
  from Cons.IH [OF this] c show ?case by simp
qed

lemma register_callback_known:
  "cbs key = Some l \<Longrightarrow> register_callback cbs key cb key = Some (l @ [cb])"
  by (simp add: register_callback_def)

lemma handle_message_route:
  "handle_message cbs (DataMessage (Some channel) payload) w =
     (case source_route channel of None \<Rightarrow> w | Some key \<Rightarrow> dispatch_key cbs key payload w)"
  unfolding handle_message_def source_route_def dispatch_key_def
  by (simp split: option.splits)

text \<open>On the six channels the source routes, the subscribers registered for the key run
  one after the other in registration order, as long as none of them raises.\<close>

lemma handle_message_routed:
  assumes "source_route channel = Some key"
    and "cbs key = Some l"
    and "\<forall>cb\<in>set l. \<forall>v. snd (cb payload v) = None"
  shows "handle_message cbs (DataMessage (Some channel) payload) w
           = fold (\<lambda>cb v. fst (cb payload v)) l w"
  using assms(1,2) run_callbacks_no_raise [OF assms(3), of w]
  by (simp add: handle_message_route dispatch_key_def)

lemma two_registered:
  "register_callback (register_callback init_callbacks ''orderbook'' (logging_callback ''first''))
        ''orderbook'' (logging_callback ''second'') ''orderbook''
    = Some [logging_callback ''first'', logging_callback ''second'']"
  by (simp add: register_callback_def init_callbacks_def)

text \<open>
  \<^bold>\<open>Claim C9.\<close> The claim routes \<open>books-l2-tbt\<close> to the order-book subscribers. With two
  subscribers registered on \<open>orderbook\<close>, a \<open>books\<close> message runs both in registration order,
  and a \<open>books-l2-tbt\<close> message, which the specification's table sends to the same key, runs
  none.
\<close>

theorem C9_books_l2_tbt_not_routed:
  "spec_route ''books-l2-tbt'' = Some ''orderbook'' \<and>
   handle_message
     (register_callback (register_callback init_callbacks ''orderbook'' (logging_callback ''first''))
        ''orderbook'' (logging_callback ''second''))
     (DataMessage (Some ''books'') 0) [] = [''first'', ''second''] \<and>
   handle_message
     (register_callback (register_callback init_callbacks ''orderbook'' (logging_callback ''first''))
        ''orderbook'' (logging_callback ''second''))
     (DataMessage (Some ''books-l2-tbt'') 0) [] = []"
proof -
  have r: "spec_route ''books-l2-tbt'' = Some ''orderbook''"
    by (simp add: spec_route_def)
  have b: "handle_message
     (register_callback (register_callback init_callbacks ''orderbook'' (logging_callback ''first''))
        ''orderbook'' (logging_callback ''second''))
     (DataMessage (Some ''books'') 0) [] = [''first'', ''second'']"
    by (simp add: handle_message_def dispatch_key_def two_registered logging_callback_def)
  have t: "handle_message
     (register_callback (register_callback init_callbacks ''orderbook'' (logging_callback ''first''))
        ''orderbook'' (logging_callback ''second''))
     (DataMessage (Some ''books-l2-tbt'') 0) [] = []"
    by (simp add: handle_message_def)
  from r b t show ?thesis by blast
qed

section \<open>Properties of the wall-riding tactic\<close>

subsection \<open>The module as it stands\<close>

text \<open>With \<^verbatim>\<open>datetime\<close> unbound every clock read raises \<^verbatim>\<open>NameError\<close>, which the
  handlers swallow: no wall is ever recorded and \<open>can_ride_wall\<close> never proposes a ride.\<close>

lemma note_level_unbound:
  "quiet_walls st \<Longrightarrow> quiet_walls (fst (note_level unbound_clock inst_id p d st))"
  by (auto simp: note_level_def unbound_clock_def quiet_walls_def Let_def)

lemma scan_bids_unbound:
  "quiet_walls st \<Longrightarrow> quiet_walls (fst (scan_bids unbound_clock inst_id ls st))"
proof (induction ls arbitrary: st)
  case Nil
  then show ?case by simp
next
  case (Cons l ls)
  show ?case
  proof (cases l)
    case (Level p d c)
    obtain st' e where n: "note_level unbound_clock inst_id p d st = (st', e)" by force
    with note_level_unbound [OF Cons.prems, of inst_id p d] have q: "quiet_walls st'" by simp
    show ?thesis
      using n q Cons.IH [OF q] Level by (cases e) simp_all
  next
    case Malformed
    with Cons.prems show ?thesis by simp
  qed
qed

lemma on_orderbook_unbound:
  "quiet_walls st \<Longrightarrow> quiet_walls (on_orderbook unbound_clock data st)"
proof (cases data)
  case None
  assume "quiet_walls st"
  with None show ?thesis by (simp add: on_orderbook_def)
next
  case (Some msg)
  assume q: "quiet_walls st"
  obtain st1 e where s: "scan_bids unbound_clock (m_inst_id msg) (take 20 (m_bids msg)) st = (st1, e)"
    by force
  with scan_bids_unbound [OF q, of "m_inst_id msg" "take 20 (m_bids msg)"]
  have "quiet_walls st1" by simp
  with s Some show ?thesis
    by (cases e) (simp_all add: on_orderbook_def unbound_clock_def)
qed

lemma feed_unbound:
  "quiet_walls st \<Longrightarrow> quiet_walls (feed_books (map (Pair unbound_clock) msgs) st)"
  by (induction msgs arbitrary: st) (simp_all add: on_orderbook_unbound)

lemma quiet_never_rides:
  assumes "quiet_walls st"
  shows "can_ride_wall clock inst_id st = None"
proof -
  from assms have "walls st inst_id = None \<or> walls st inst_id = Some []"
    by (simp add: quiet_walls_def)
  then show ?thesis by (auto simp: can_ride_wall_def)
qed

lemma quiet_init_wall_riding: "quiet_walls init_wall_riding"
  by (simp add: quiet_walls_def init_wall_riding_def)

text \<open>The sample of Scenario B under the unbound clock: the first sighting creates the
  empty inner dictionary of the instrument and then raises while the entry is built; every
  later sighting raises at the same place and changes nothing.\<close>

lemma unbound_first_sample:
  "100 \<le> d \<Longrightarrow>
     on_orderbook unbound_clock (Some (level_sample inst_id p d)) init_wall_riding
       = init_wall_riding\<lparr>walls := [inst_id \<mapsto> []]\<rparr>"
  by (simp add: on_orderbook_def level_sample_def note_level_def init_wall_riding_def
      unbound_clock_def Let_def)

lemma unbound_next_sample:
  "100 \<le> d \<Longrightarrow>
     on_orderbook unbound_clock (Some (level_sample inst_id p d))
         (init_wall_riding\<lparr>walls := [inst_id \<mapsto> []]\<rparr>)
       = init_wall_riding\<lparr>walls := [inst_id \<mapsto> []]\<rparr>"
  by (simp add: on_orderbook_def level_sample_def note_level_def init_wall_riding_def
      unbound_clock_def Let_def)

lemma unbound_more_samples:
  "100 \<le> d \<Longrightarrow>
     feed_books (replicate n (unbound_clock, level_sample inst_id p d))
         (init_wall_riding\<lparr>walls := [inst_id \<mapsto> []]\<rparr>)
       = init_wall_riding\<lparr>walls := [inst_id \<mapsto> []]\<rparr>"
  by (induction n) (simp_all add: unbound_next_sample)

lemma unbound_samples:
  "100 \<le> d \<Longrightarrow>
     feed_books (replicate (Suc n) (unbound_clock, level_sample inst_id p d)) init_wall_riding
       = init_wall_riding\<lparr>walls := [inst_id \<mapsto> []]\<rparr>"
  by (simp add: unbound_first_sample unbound_more_samples)

text \<open>
  \<^bold>\<open>Claim C5.\<close> The claim has a level of depth 150 (threshold 100) enter the wall map at its
  first sighting and become actionable once it has persisted for 5 seconds. In the module as
  it stands every clock read raises \<^verbatim>\<open>NameError\<close>, so this does not happen: after the six
  samples of Scenario B the wall map of the instrument is the empty dictionary that the first
  sighting created, the level is not in it, and \<open>can_ride_wall\<close> returns no ride, whatever
  its own clock read gives. More generally, whatever messages the strategy is fed from its
  initial state, \<open>can_ride_wall\<close> returns no ride for any instrument.
\<close>

theorem C5_unbound_clock_never_rides:
  "feed_books (replicate 6 (unbound_clock, level_sample inst_id p 150)) init_wall_riding
     = init_wall_riding\<lparr>walls := [inst_id \<mapsto> []]\<rparr> \<and>
   can_ride_wall clock inst_id
       (feed_books (replicate 6 (unbound_clock, level_sample inst_id p 150)) init_wall_riding)
     = None \<and>
   can_ride_wall clock inst_id (feed_books (map (Pair unbound_clock) msgs) init_wall_riding)
     = None"
proof -
  have h: "(100::real) \<le> 150" by simp
  have six: "(6::nat) = Suc 5" by simp
  have a: "feed_books (replicate 6 (unbound_clock, level_sample inst_id p 150)) init_wall_riding
      = init_wall_riding\<lparr>walls := [inst_id \<mapsto> []]\<rparr>"
    unfolding six by (rule unbound_samples [OF h])
  have b: "can_ride_wall clock inst_id (init_wall_riding\<lparr>walls := [inst_id \<mapsto> []]\<rparr>) = None"
    by (simp add: can_ride_wall_def)
  have c: "can_ride_wall clock inst_id
      (feed_books (map (Pair unbound_clock) msgs) init_wall_riding) = None"
    by (rule quiet_never_rides [OF feed_unbound [OF quiet_init_wall_riding]])
  from a b c show ?thesis by simp
qed

subsection \<open>With a readable clock\<close>

text \<open>What the two methods compute when the clock reads return instants, which the module
  as it stands never reaches: a level sampled once a second at the instants \<open>0, \<dots>, n\<close> is
  on record as the only wall of its instrument, first seen at 0 and last seen at \<open>n\<close>.\<close>

lemma feed_books_append:
  "feed_books (xs @ ys) st = feed_books ys (feed_books xs st)"
  by (induction xs st rule: feed_books.induct) simp_all

lemma samples_upto_Suc:
  "samples_upto inst_id p d (Suc n) =
     samples_upto inst_id p d n @ [(Inr (real n), level_sample inst_id p d)]"
  by (simp add: samples_upto_def)

lemma first_sample:
  "100 \<le> d \<Longrightarrow>
     on_orderbook (Inr 0) (Some (level_sample inst_id p d)) init_wall_riding
       = wall_state inst_id p d 0"
  by (simp add: on_orderbook_def level_sample_def note_level_def init_wall_riding_def
      wall_state_def Let_def)

lemma next_sample:
  "100 \<le> d \<Longrightarrow>
     on_orderbook (Inr (real (Suc k))) (Some (level_sample inst_id p d)) (wall_state inst_id p d k)
       = wall_state inst_id p d (Suc k)"
  by (simp add: on_orderbook_def level_sample_def note_level_def init_wall_riding_def
      wall_state_def Let_def set_last_seen_def)

lemma fed_state:
  "100 \<le> d \<Longrightarrow>
     feed_books (samples_upto inst_id p d (Suc n)) init_wall_riding = wall_state inst_id p d n"
proof (induction n)
  case 0
  then show ?case by (simp add: samples_upto_def first_sample)
next
  case (Suc n)
  then show ?case
    by (simp add: samples_upto_Suc [of _ _ _ "Suc n"] feed_books_append next_sample
        del: of_nat_Suc)
qed

text \<open>The age test is \<open>persistence \<ge> 5\<close> seconds from the first sighting, and the proposed
  price is the wall price times 1.001.\<close>

lemma ride_on_wall_state:
  "can_ride_wall (Inr t) inst_id (wall_state inst_id p d k) =
     (if 5 \<le> t then
        Some \<lparr>r_wall_price = p, r_ride_price = p * (1 + 1 / 1000), r_wall_depth = d,
              r_persistence = t\<rparr>
      else None)"
  by (simp add: can_ride_wall_def wall_state_def init_wall_riding_def)

lemma absent_level:
  "on_orderbook (Inr t) (Some \<lparr>m_inst_id = inst_id, m_bids = []\<rparr>) (wall_state inst_id p d k)
     = (if 2 < t - real k then init_wall_riding\<lparr>walls := [inst_id \<mapsto> []]\<rparr>
        else wall_state inst_id p d k)"
  by (simp add: on_orderbook_def wall_state_def init_wall_riding_def)

lemma below_threshold_ignored:
  "d < 100 \<Longrightarrow>
     on_orderbook (Inr t) (Some (level_sample inst_id p d)) init_wall_riding = init_wall_riding"
  by (simp add: on_orderbook_def level_sample_def note_level_def init_wall_riding_def)

section \<open>Properties of the feature record\<close>

lemma calculate_ofi_eq:
  "calculate_ofi b t tf =
     (ofi_value (if tf = ''1s'' then 1 else 5) t
        (deque_append (bids_history b)
           \<lparr>h_price = fst (get_best_bid b), h_size = snd (get_best_bid b), h_time = t\<rparr>)
        (deque_append (asks_history b)
           \<lparr>h_price = fst (get_best_ask b), h_size = snd (get_best_ask b), h_time = t\<rparr>),
      b\<lparr>bids_history := deque_append (bids_history b)
           \<lparr>h_price = fst (get_best_bid b), h_size = snd (get_best_bid b), h_time = t\<rparr>,
        asks_history := deque_append (asks_history b)
           \<lparr>h_price = fst (get_best_ask b), h_size = snd (get_best_ask b), h_time = t\<rparr>\<rparr>)"
  by (simp add: calculate_ofi_def ofi_value_def Let_def split: prod.splits)

lemma calculate_ofi_sides [simp]:
  "bids (snd (calculate_ofi b t tf)) = bids b"
  "asks (snd (calculate_ofi b t tf)) = asks b"
  "sorted_bids (snd (calculate_ofi b t tf)) = sorted_bids b"
  "sorted_asks (snd (calculate_ofi b t tf)) = sorted_asks b"
  by (simp_all add: calculate_ofi_eq)

lemma get_mid_price_cong:
  "get_best_bid b' = get_best_bid b \<Longrightarrow> get_best_ask b' = get_best_ask b \<Longrightarrow>
     get_mid_price b' = get_mid_price b"
  by (simp add: get_mid_price_def)

lemma get_spread_cong:
  "get_best_bid b' = get_best_bid b \<Longrightarrow> get_best_ask b' = get_best_ask b \<Longrightarrow>
     get_spread b' = get_spread b"
  by (simp add: get_spread_def)

lemma get_spread_bps_cong:
  "get_best_bid b' = get_best_bid b \<Longrightarrow> get_best_ask b' = get_best_ask b \<Longrightarrow>
     get_spread_bps b' = get_spread_bps b"
  by (simp add: get_spread_bps_def get_spread_def get_mid_price_def)

lemma get_wmp_cong:
  "get_best_bid b' = get_best_bid b \<Longrightarrow> get_best_ask b' = get_best_ask b \<Longrightarrow>
     get_wmp b' = get_wmp b"
  by (simp add: get_wmp_def get_mid_price_def split_beta)

lemma detect_liquidity_void_cong:
  "get_bids 50 b' = get_bids 50 b \<Longrightarrow> get_asks 50 b' = get_asks 50 b \<Longrightarrow>
     detect_liquidity_void b' d th m = detect_liquidity_void b d th m"
  by (simp add: detect_liquidity_void_def cong: sum.case_cong)

lemma detect_wall_cong:
  "get_bids n b' = get_bids n b \<Longrightarrow> get_asks n b' = get_asks n b \<Longrightarrow>
     detect_wall b' md n = detect_wall b md n"
  by (simp add: detect_wall_def cong: option.case_cong)

lemma same_sides_queries:
  assumes "same_sides b' b"
  shows "get_best_bid b' = get_best_bid b" "get_best_ask b' = get_best_ask b"
    "get_bids n b' = get_bids n b" "get_asks n b' = get_asks n b"
    "get_mid_price b' = get_mid_price b" "get_spread b' = get_spread b"
    "get_spread_bps b' = get_spread_bps b" "get_wmp b' = get_wmp b"
    "detect_liquidity_void b' d th m = detect_liquidity_void b d th m"
    "detect_wall b' md n = detect_wall b md n"
proof -
  from assms have s: "bids b' = bids b" "asks b' = asks b"
      "sorted_bids b' = sorted_bids b" "sorted_asks b' = sorted_asks b"
    by (simp_all add: same_sides_def)
  show bb: "get_best_bid b' = get_best_bid b" by (rule get_best_bid_cong) (rule s)+
  show ba: "get_best_ask b' = get_best_ask b" by (rule get_best_ask_cong) (rule s)+
  show gb: "get_bids n b' = get_bids n b" for n by (rule get_bids_cong) (rule s)+
  show ga: "get_asks n b' = get_asks n b" for n by (rule get_asks_cong) (rule s)+
  show "get_mid_price b' = get_mid_price b" by (rule get_mid_price_cong [OF bb ba])
  show "get_spread b' = get_spread b" by (rule get_spread_cong [OF bb ba])
  show "get_spread_bps b' = get_spread_bps b" by (rule get_spread_bps_cong [OF bb ba])
  show "get_wmp b' = get_wmp b" by (rule get_wmp_cong [OF bb ba])
  show "detect_liquidity_void b' d th m = detect_liquidity_void b d th m"
    by (rule detect_liquidity_void_cong [OF gb ga])
  show "detect_wall b' md n = detect_wall b md n"
    by (rule detect_wall_cong [OF gb ga])
qed

lemma same_sides_calculate_ofi: "same_sides (snd (calculate_ofi b t tf)) b"
  by (simp add: same_sides_def)

lemma same_sides_trans: "same_sides c b \<Longrightarrow> same_sides b a \<Longrightarrow> same_sides c a"
  by (simp add: same_sides_def)

lemma same_sides_features [simp]: "same_sides (b\<lparr>features := f\<rparr>) b"
  by (simp add: same_sides_def)

lemma calculate_features_snd:
  "snd (calculate_features b t1 t2) =
     (snd (calculate_ofi (snd (calculate_ofi b t1 ''1s'')) t2 ''5s''))
       \<lparr>features := fst (calculate_features b t1 t2)\<rparr>"
  by (simp add: calculate_features_def Let_def split_beta)

lemma same_sides_calculate_features: "same_sides (snd (calculate_features b t1 t2)) b"
  by (simp add: calculate_features_snd same_sides_def)

lemma calculate_features_ofi:
  "ofi_1s (fst (calculate_features b t1 t2)) = fst (calculate_ofi b t1 ''1s'')"
  "ofi_5s (fst (calculate_features b t1 t2))
     = fst (calculate_ofi (snd (calculate_ofi b t1 ''1s'')) t2 ''5s'')"
  "buy_pressure (fst (calculate_features b t1 t2))
     = (if 0 < fst (calculate_ofi b t1 ''1s'') then fst (calculate_ofi b t1 ''1s'') else 0)"
  "sell_pressure (fst (calculate_features b t1 t2))
     = (if fst (calculate_ofi b t1 ''1s'') < 0 then \<bar>fst (calculate_ofi b t1 ''1s'')\<bar> else 0)"
  by (simp_all add: calculate_features_def Let_def split_beta)

lemma book_derived_calculate_features:
  "book_derived (fst (calculate_features b t1 t2)) =
     ((fst (get_best_bid b), fst (get_best_ask b), get_mid_price b, get_wmp b, get_spread b,
       get_spread_bps b, snd (get_best_bid b), snd (get_best_ask b)),
      (filter (\<lambda>v. fst v < snd v) (detect_liquidity_void b ''both'' (2 / 1000) 5),
       filter (\<lambda>v. snd v < fst v) (detect_liquidity_void b ''both'' (2 / 1000) 5)),
      (detect_wall b 50 20 \<noteq> None,
       (case detect_wall b 50 20 of None \<Rightarrow> [] | Some w \<Rightarrow> w_side w),
       (case detect_wall b 50 20 of None \<Rightarrow> 0 | Some w \<Rightarrow> w_price w),
       (case detect_wall b 50 20 of None \<Rightarrow> 0 | Some w \<Rightarrow> w_depth w)))"
proof -
  have s: "same_sides (snd (calculate_ofi (snd (calculate_ofi b t1 ''1s'')) t2 ''5s'')) b"
    by (rule same_sides_trans [OF same_sides_calculate_ofi same_sides_calculate_ofi])
  have v: "detect_liquidity_void (snd (calculate_ofi (snd (calculate_ofi b t1 ''1s'')) t2 ''5s''))
      ''both'' (2 / 1000) 5 = detect_liquidity_void b ''both'' (2 / 1000) 5"
    by (rule same_sides_queries [OF s])
  have w: "detect_wall (snd (calculate_ofi (snd (calculate_ofi b t1 ''1s'')) t2 ''5s'')) 50 20
      = detect_wall b 50 20"
    by (rule same_sides_queries [OF s])
  show ?thesis
    unfolding calculate_features_def book_derived_def Let_def split_beta v w
    by simp
qed

lemma book_derived_same_sides:
  assumes "same_sides b' b"
  shows "book_derived (fst (calculate_features b' t3 t4))
           = book_derived (fst (calculate_features b t1 t2))"
  by (simp add: book_derived_calculate_features same_sides_queries [OF assms])


lemma deque_append_short: "length xs < 100 \<Longrightarrow> deque_append xs x = xs @ [x]"
  by (simp add: deque_append_def)

lemma recent_entries_append:
  "recent_entries w t (xs @ ys) = recent_entries w t xs @ recent_entries w t ys"
  by (simp add: recent_entries_def)

lemma recent_entries_all:
  "\<forall>e\<in>set ys. t - h_time e \<le> w \<Longrightarrow> recent_entries w t ys = ys"
  by (simp add: recent_entries_def)

lemma recent_entries_aligned:
  assumes "map h_time bh = map h_time ah"
  shows "length (recent_entries w t bh) = length (recent_entries w t ah)"
proof -
  have k: "length (filter (\<lambda>e. t - h_time e \<le> w) xs)
      = length (filter (\<lambda>u. t - u \<le> w) (map h_time xs))" for xs :: "history_entry list"
    by (simp add: filter_map comp_def)
  show ?thesis by (simp only: recent_entries_def k assms)
qed

lemma recent_entries_cong:
  assumes "\<forall>e\<in>set h. (t - h_time e \<le> w) = (t' - h_time e \<le> w)"
  shows "recent_entries w t h = recent_entries w t' h"
  unfolding recent_entries_def using assms by (intro filter_cong) simp_all

lemma ofi_value_extended:
  assumes len: "length (recent_entries w t bh) = length (recent_entries w t ah)"
    and nb: "nb \<noteq> []" "\<forall>e\<in>set nb. h_size e = s \<and> t - h_time e \<le> w"
    and na: "length na = length nb" "\<forall>e\<in>set na. h_size e = a \<and> t - h_time e \<le> w"
  shows "ofi_value w t (bh @ nb) (ah @ na) =
     (if recent_entries w t bh = [] then 0
      else (s - h_size (hd (recent_entries w t bh))) - (a - h_size (hd (recent_entries w t ah))))"
proof -
  let ?rb = "recent_entries w t bh" and ?ra = "recent_entries w t ah"
  from na nb have na_ne: "na \<noteq> []" by auto
  have rb: "recent_entries w t (bh @ nb) = ?rb @ nb"
    using nb by (simp add: recent_entries_append recent_entries_all)
  have ra: "recent_entries w t (ah @ na) = ?ra @ na"
    using na by (simp add: recent_entries_append recent_entries_all)
  have lb: "h_size (last nb) = s" using nb by simp
  have la: "h_size (last na) = a" using na na_ne by simp
  show ?thesis
  proof (cases "?rb = []")
    case True
    with len have e: "?ra = []" by simp
    have hb: "h_size (hd nb) = s" using nb by simp
    have ha: "h_size (hd na) = a" using na na_ne by simp
    show ?thesis
      using True e lb la hb ha
      by (simp add: ofi_value_def rb ra Let_def)
  next
    case False
    with len have e: "?ra \<noteq> []" by auto
    from False have l2: "\<not> length (?rb @ nb) < 2" using nb(1)
      by (cases ?rb; cases nb) simp_all
    from e have l2a: "\<not> length (?ra @ na) < 2" using na_ne
      by (cases ?ra; cases na) simp_all
    show ?thesis
      using False e l2 l2a lb la nb(1) na_ne
      by (simp add: ofi_value_def rb ra Let_def)
  qed
qed


lemma calculate_ofi_histories:
  assumes "length (bids_history b) < 100" "length (asks_history b) < 100"
  shows "bids_history (snd (calculate_ofi b t tf)) = bids_history b @
           [\<lparr>h_price = fst (get_best_bid b), h_size = snd (get_best_bid b), h_time = t\<rparr>]"
    and "asks_history (snd (calculate_ofi b t tf)) = asks_history b @
           [\<lparr>h_price = fst (get_best_ask b), h_size = snd (get_best_ask b), h_time = t\<rparr>]"
  using assms by (simp_all add: calculate_ofi_eq deque_append_short)

lemma calculate_ofi_best [simp]:
  "get_best_bid (snd (calculate_ofi b t tf)) = get_best_bid b"
  "get_best_ask (snd (calculate_ofi b t tf)) = get_best_ask b"
  by (rule same_sides_queries [OF same_sides_calculate_ofi])+

lemma calculate_features_best [simp]:
  "get_best_bid (snd (calculate_features b t1 t2)) = get_best_bid b"
  "get_best_ask (snd (calculate_features b t1 t2)) = get_best_ask b"
  by (rule same_sides_queries [OF same_sides_calculate_features])+

lemma calculate_features_histories:
  "bids_history (snd (calculate_features b t1 t2))
     = bids_history (snd (calculate_ofi (snd (calculate_ofi b t1 ''1s'')) t2 ''5s''))"
  "asks_history (snd (calculate_features b t1 t2))
     = asks_history (snd (calculate_ofi (snd (calculate_ofi b t1 ''1s'')) t2 ''5s''))"
  by (simp_all add: calculate_features_snd)

lemma calculate_ofi_value:
  assumes best: "snd (get_best_bid b') = bs" "snd (get_best_ask b') = as"
    and hist: "bids_history b' = bh @ nb" "asks_history b' = ah @ na"
    and short: "length (bh @ nb) < 100" "length (ah @ na) < 100"
    and len: "length na = length nb"
    and nb: "\<forall>e\<in>set nb. h_size e = bs \<and> t - h_time e \<le> w"
    and na: "\<forall>e\<in>set na. h_size e = as \<and> t - h_time e \<le> w"
    and aligned: "map h_time bh = map h_time ah"
    and w: "w = (if tf = ''1s'' then 1 else 5)"
  shows "fst (calculate_ofi b' t tf) =
     (if recent_entries w t bh = [] then 0
      else (bs - h_size (hd (recent_entries w t bh))) - (as - h_size (hd (recent_entries w t ah))))"
proof -
  let ?cb = "\<lparr>h_price = fst (get_best_bid b'), h_size = snd (get_best_bid b'), h_time = t\<rparr>"
  let ?ca = "\<lparr>h_price = fst (get_best_ask b'), h_size = snd (get_best_ask b'), h_time = t\<rparr>"
  from w have w0: "0 \<le> w" by simp
  have v: "fst (calculate_ofi b' t tf) = ofi_value w t (bh @ (nb @ [?cb])) (ah @ (na @ [?ca]))"
    using short hist w by (simp add: calculate_ofi_eq deque_append_short)
  have n1: "nb @ [?cb] \<noteq> []" by simp
  have n2: "\<forall>e\<in>set (nb @ [?cb]). h_size e = bs \<and> t - h_time e \<le> w"
    using nb best w0 by simp
  have n3: "length (na @ [?ca]) = length (nb @ [?cb])" using len by simp
  have n4: "\<forall>e\<in>set (na @ [?ca]). h_size e = as \<and> t - h_time e \<le> w"
    using na best w0 by simp
  show ?thesis
    unfolding v
    by (rule ofi_value_extended [OF recent_entries_aligned [OF aligned] n1 n2 n3 n4])
qed

lemma recompute_same_ofi:
  assumes short: "length (bids_history b) \<le> 96" "length (asks_history b) \<le> 96"
    and aligned: "map h_time (bids_history b) = map h_time (asks_history b)"
    and order: "t1 \<le> t2" "t2 \<le> t3" "t3 \<le> t4"
    and near: "t3 - t1 \<le> 1" "t4 - t1 \<le> 5"
    and stay: "\<forall>e\<in>set (bids_history b).
        (t1 - h_time e \<le> 1) = (t3 - h_time e \<le> 1) \<and> (t2 - h_time e \<le> 5) = (t4 - h_time e \<le> 5)"
  shows "fst (calculate_ofi (snd (calculate_features b t1 t2)) t3 ''1s'')
           = fst (calculate_ofi b t1 ''1s'')"
    and "fst (calculate_ofi (snd (calculate_ofi (snd (calculate_features b t1 t2)) t3 ''1s'')) t4 ''5s'')
           = fst (calculate_ofi (snd (calculate_ofi b t1 ''1s'')) t2 ''5s'')"
proof -
  define bh where "bh = bids_history b"
  define ah where "ah = asks_history b"
  define bs where "bs = snd (get_best_bid b)"
  define as where "as = snd (get_best_ask b)"
  define cb where "cb = (\<lambda>t. \<lparr>h_price = fst (get_best_bid b), h_size = bs, h_time = t\<rparr>)"
  define ca where "ca = (\<lambda>t. \<lparr>h_price = fst (get_best_ask b), h_size = as, h_time = t\<rparr>)"
  define b1 where "b1 = snd (calculate_ofi b t1 ''1s'')"
  define b2 where "b2 = snd (calculate_features b t1 t2)"
  define b3 where "b3 = snd (calculate_ofi b2 t3 ''1s'')"
  have al: "map h_time bh = map h_time ah" using aligned by (simp add: bh_def ah_def)
  have sh: "length bh \<le> 96" "length ah \<le> 96" using short by (simp_all add: bh_def ah_def)
  have h1: "bids_history b1 = bh @ [cb t1]" "asks_history b1 = ah @ [ca t1]"
    using sh calculate_ofi_histories [of b t1 "''1s''"]
    by (simp_all add: b1_def bh_def ah_def cb_def ca_def bs_def as_def)
  have best1: "get_best_bid b1 = get_best_bid b" "get_best_ask b1 = get_best_ask b"
    by (simp_all add: b1_def)
  have h2: "bids_history b2 = bh @ [cb t1, cb t2]" "asks_history b2 = ah @ [ca t1, ca t2]"
    using sh h1 best1 calculate_ofi_histories [of b1 t2 "''5s''"]
    by (simp_all add: b2_def calculate_features_histories b1_def [symmetric]
        cb_def ca_def bs_def as_def)
  have best2: "get_best_bid b2 = get_best_bid b" "get_best_ask b2 = get_best_ask b"
    by (simp_all add: b2_def)
  have h3: "bids_history b3 = bh @ [cb t1, cb t2, cb t3]"
      "asks_history b3 = ah @ [ca t1, ca t2, ca t3]"
    using sh h2 best2 calculate_ofi_histories [of b2 t3 "''1s''"]
    by (simp_all add: b3_def cb_def ca_def bs_def as_def)
  have best3: "get_best_bid b3 = get_best_bid b" "get_best_ask b3 = get_best_ask b"
    by (simp_all add: b3_def best2)
  have stay_b: "\<forall>e\<in>set bh. (t1 - h_time e \<le> 1) = (t3 - h_time e \<le> 1)"
      "\<forall>e\<in>set bh. (t2 - h_time e \<le> 5) = (t4 - h_time e \<le> 5)"
    using stay by (simp_all add: bh_def)
  have times: "h_time ` set ah = h_time ` set bh"
    using al by (metis set_map)
  have stay_a: "\<forall>e\<in>set ah. (t1 - h_time e \<le> 1) = (t3 - h_time e \<le> 1)"
      "\<forall>e\<in>set ah. (t2 - h_time e \<le> 5) = (t4 - h_time e \<le> 5)"
  proof -
    have "\<exists>e'\<in>set bh. h_time e' = h_time e" if "e \<in> set ah" for e
      using that times by (metis imageE imageI)
    with stay_b show "\<forall>e\<in>set ah. (t1 - h_time e \<le> 1) = (t3 - h_time e \<le> 1)"
      "\<forall>e\<in>set ah. (t2 - h_time e \<le> 5) = (t4 - h_time e \<le> 5)"
      by metis+
  qed
  have r1: "recent_entries 1 t3 bh = recent_entries 1 t1 bh"
      "recent_entries 1 t3 ah = recent_entries 1 t1 ah"
    using stay_b(1) stay_a(1) by (simp_all add: recent_entries_cong [of _ t1 1 t3])
  have r5: "recent_entries 5 t4 bh = recent_entries 5 t2 bh"
      "recent_entries 5 t4 ah = recent_entries 5 t2 ah"
    using stay_b(2) stay_a(2) by (simp_all add: recent_entries_cong [of _ t2 5 t4])
  have o1: "fst (calculate_ofi b t1 ''1s'') =
      (if recent_entries 1 t1 bh = [] then 0
       else (bs - h_size (hd (recent_entries 1 t1 bh))) - (as - h_size (hd (recent_entries 1 t1 ah))))"
    by (rule calculate_ofi_value [where nb = "[]" and na = "[]"])
      (use sh al in \<open>simp_all add: bs_def as_def bh_def ah_def\<close>)
  have o5: "fst (calculate_ofi b1 t2 ''5s'') =
      (if recent_entries 5 t2 bh = [] then 0
       else (bs - h_size (hd (recent_entries 5 t2 bh))) - (as - h_size (hd (recent_entries 5 t2 ah))))"
    by (rule calculate_ofi_value [where nb = "[cb t1]" and na = "[ca t1]"])
      (use sh al h1 best1 order near in \<open>simp_all add: bs_def as_def cb_def ca_def\<close>)
  have o1': "fst (calculate_ofi b2 t3 ''1s'') =
      (if recent_entries 1 t3 bh = [] then 0
       else (bs - h_size (hd (recent_entries 1 t3 bh))) - (as - h_size (hd (recent_entries 1 t3 ah))))"
    by (rule calculate_ofi_value [where nb = "[cb t1, cb t2]" and na = "[ca t1, ca t2]"])
      (use sh al h2 best2 order near in \<open>simp_all add: bs_def as_def cb_def ca_def\<close>)
  have o5': "fst (calculate_ofi b3 t4 ''5s'') =
      (if recent_entries 5 t4 bh = [] then 0
       else (bs - h_size (hd (recent_entries 5 t4 bh))) - (as - h_size (hd (recent_entries 5 t4 ah))))"
    by (rule calculate_ofi_value [where nb = "[cb t1, cb t2, cb t3]" and na = "[ca t1, ca t2, ca t3]"])
      (use sh al h3 best3 order near in \<open>simp_all add: bs_def as_def cb_def ca_def\<close>)
  show "fst (calculate_ofi (snd (calculate_features b t1 t2)) t3 ''1s'')
           = fst (calculate_ofi b t1 ''1s'')"
    using o1 o1' r1 by (simp add: b2_def)
  show "fst (calculate_ofi (snd (calculate_ofi (snd (calculate_features b t1 t2)) t3 ''1s'')) t4 ''5s'')
           = fst (calculate_ofi (snd (calculate_ofi b t1 ''1s'')) t2 ''5s'')"
    using o5 o5' r5 by (simp add: b1_def b2_def b3_def)
qed

lemma sampled_book_best:
  "get_best_bid sampled_book = (100, 5)" "get_best_ask sampled_book = (101, 2)"
  by (simp_all add: get_best_bid_def get_best_ask_def sampled_book_def scenario_book_def
      init_book_def mk_level_def)

lemma sampled_book_histories:
  "bids_history sampled_book = [\<lparr>h_price = 100, h_size = 3, h_time = 0\<rparr>]"
  "asks_history sampled_book = [\<lparr>h_price = 101, h_size = 2, h_time = 0\<rparr>]"
  by (simp_all add: sampled_book_def)

lemma sampled_book_first_ofi: "fst (calculate_ofi sampled_book 1 ''1s'') = 2"
  by (simp add: calculate_ofi_eq sampled_book_best sampled_book_histories deque_append_def
      ofi_value_def recent_entries_def)

lemma sampled_book_later_ofi:
  "fst (calculate_ofi (snd (calculate_features sampled_book 1 1)) 3 ''1s'') = 0"
proof -
  have h: "bids_history (snd (calculate_features sampled_book 1 1))
        = [\<lparr>h_price = 100, h_size = 3, h_time = 0\<rparr>, \<lparr>h_price = 100, h_size = 5, h_time = 1\<rparr>,
           \<lparr>h_price = 100, h_size = 5, h_time = 1\<rparr>]"
      "asks_history (snd (calculate_features sampled_book 1 1))
        = [\<lparr>h_price = 101, h_size = 2, h_time = 0\<rparr>, \<lparr>h_price = 101, h_size = 2, h_time = 1\<rparr>,
           \<lparr>h_price = 101, h_size = 2, h_time = 1\<rparr>]"
    by (simp_all add: calculate_features_histories calculate_ofi_histories
        sampled_book_histories sampled_book_best)
  show ?thesis
    by (simp add: calculate_ofi_eq h sampled_book_best deque_append_def ofi_value_def
        recent_entries_def)
qed

text \<open>
  \<^bold>\<open>Claim C7, as amended.\<close> Computing the features twice with no order-book update in
  between gives the same best bid and ask, mid price, WMP, spread, spread in basis points,
  depths, void lists and wall descriptor, whatever the four clock reads \<open>t1, t2\<close> (first
  computation) and \<open>t3, t4\<close> (second computation) return. The two OFI values, and with them
  the whole feature record, are the same as well when the histories hold at most 96 samples
  taken in step on both sides, the clock does not run backwards, the second computation
  starts within 1 second and ends within 5 seconds of the start of the first, and no sample
  of the history leaves the 1-second or the 5-second window between the two computations.
\<close>

theorem C7_recomputed_features:
  "book_derived (fst (calculate_features (snd (calculate_features b t1 t2)) t3 t4))
     = book_derived (fst (calculate_features b t1 t2)) \<and>
   (length (bids_history b) \<le> 96 \<and> length (asks_history b) \<le> 96 \<and>
    map h_time (bids_history b) = map h_time (asks_history b) \<and>
    t1 \<le> t2 \<and> t2 \<le> t3 \<and> t3 \<le> t4 \<and> t3 - t1 \<le> 1 \<and> t4 - t1 \<le> 5 \<and>
    (\<forall>e\<in>set (bids_history b).
        (t1 - h_time e \<le> 1) = (t3 - h_time e \<le> 1) \<and> (t2 - h_time e \<le> 5) = (t4 - h_time e \<le> 5))
    \<longrightarrow> fst (calculate_features (snd (calculate_features b t1 t2)) t3 t4)
          = fst (calculate_features b t1 t2))"
proof (intro conjI impI)
  show bd: "book_derived (fst (calculate_features (snd (calculate_features b t1 t2)) t3 t4))
     = book_derived (fst (calculate_features b t1 t2))"
    by (rule book_derived_same_sides [OF same_sides_calculate_features])
  assume h: "length (bids_history b) \<le> 96 \<and> length (asks_history b) \<le> 96 \<and>
    map h_time (bids_history b) = map h_time (asks_history b) \<and>
    t1 \<le> t2 \<and> t2 \<le> t3 \<and> t3 \<le> t4 \<and> t3 - t1 \<le> 1 \<and> t4 - t1 \<le> 5 \<and>
    (\<forall>e\<in>set (bids_history b).
        (t1 - h_time e \<le> 1) = (t3 - h_time e \<le> 1) \<and> (t2 - h_time e \<le> 5) = (t4 - h_time e \<le> 5))"
  then have p: "length (bids_history b) \<le> 96" "length (asks_history b) \<le> 96"
      "map h_time (bids_history b) = map h_time (asks_history b)"
      "t1 \<le> t2" "t2 \<le> t3" "t3 \<le> t4" "t3 - t1 \<le> 1" "t4 - t1 \<le> 5"
      "\<forall>e\<in>set (bids_history b).
        (t1 - h_time e \<le> 1) = (t3 - h_time e \<le> 1) \<and> (t2 - h_time e \<le> 5) = (t4 - h_time e \<le> 5)"
    by blast+
  note o = recompute_same_ofi [OF p]
  show "fst (calculate_features (snd (calculate_features b t1 t2)) t3 t4)
          = fst (calculate_features b t1 t2)"
  proof (rule OrderBookFeatures.equality)
    show "ofi_1s (fst (calculate_features (snd (calculate_features b t1 t2)) t3 t4))
        = ofi_1s (fst (calculate_features b t1 t2))"
      "ofi_5s (fst (calculate_features (snd (calculate_features b t1 t2)) t3 t4))
        = ofi_5s (fst (calculate_features b t1 t2))"
      "buy_pressure (fst (calculate_features (snd (calculate_features b t1 t2)) t3 t4))
        = buy_pressure (fst (calculate_features b t1 t2))"
      "sell_pressure (fst (calculate_features (snd (calculate_features b t1 t2)) t3 t4))
        = sell_pressure (fst (calculate_features b t1 t2))"
      by (simp_all add: calculate_features_ofi o)
  qed (use bd in \<open>simp_all add: book_derived_def\<close>)
qed

theorem C7_witness:
  "fst (calculate_features (snd (calculate_features sampled_book 1 1)) 1 1)
     = fst (calculate_features sampled_book 1 1) \<and>
   ofi_1s (fst (calculate_features sampled_book 1 1)) = 2 \<and>
   best_bid (fst (calculate_features sampled_book 1 1)) = 100"
proof -
  have f: "fst (calculate_features (snd (calculate_features sampled_book 1 1)) 1 1)
     = fst (calculate_features sampled_book 1 1)"
    using C7_recomputed_features [of sampled_book 1 1 1 1]
    by (simp add: sampled_book_histories)
  have b: "best_bid (fst (calculate_features sampled_book 1 1)) = 100"
    by (simp add: calculate_features_def Let_def split_beta sampled_book_best)
  show ?thesis
    using f b by (simp add: calculate_features_ofi sampled_book_first_ofi)
qed

text \<open>The claim as stated fails when the clock moves on. The book holds a sample taken
  at the instant 0, when the best bid had size 3; the best bid now has size 5. Computed at
  the instant 1 the one-second OFI is 2; computed again at the instant 3, with no update of
  the book in between, it is 0.\<close>

theorem C7_counterexample:
  "ofi_1s (fst (calculate_features sampled_book 1 1)) = 2 \<and>
   ofi_1s (fst (calculate_features (snd (calculate_features sampled_book 1 1)) 3 3)) = 0 \<and>
   fst (calculate_features (snd (calculate_features sampled_book 1 1)) 3 3)
     \<noteq> fst (calculate_features sampled_book 1 1)"
proof -
  have a: "ofi_1s (fst (calculate_features sampled_book 1 1)) = 2"
    by (simp add: calculate_features_ofi sampled_book_first_ofi)
  have b: "ofi_1s (fst (calculate_features (snd (calculate_features sampled_book 1 1)) 3 3)) = 0"
    by (simp add: calculate_features_ofi sampled_book_later_ofi)
  from a b have "fst (calculate_features (snd (calculate_features sampled_book 1 1)) 3 3)
     \<noteq> fst (calculate_features sampled_book 1 1)"
    by (metis zero_neq_numeral)
  with a b show ?thesis by blast
qed

section \<open>Properties of the feature extractor\<close>

lemma ols10:
  "ols_slope [y0, y1, y2, y3, y4, y5, y6, y7, y8, y9] =
     (9 * (y9 - y0) + 7 * (y8 - y1) + 5 * (y7 - y2) + 3 * (y6 - y3) + (y5 - y4)) / 165"
  by (simp add: ols_slope_def Let_def upt_rec_numeral) (simp add: field_simps)

lemma incr_bid_histories [simp]:
  "bids_history (incr_bid b p s c) = bids_history b"
  "asks_history (incr_bid b p s c) = asks_history b"
  by (simp_all add: incr_bid_def Let_def)

lemma incr_bid_best_ask [simp]: "get_best_ask (incr_bid b p s c) = get_best_ask b"
  by (rule get_best_ask_cong) simp_all

lemma incr_bid_best:
  assumes "sorted_bids b = - p # rest" "bids b p \<noteq> None" "s \<noteq> 0"
  shows "get_best_bid (incr_bid b p s c) = (p, s)"
    and "sorted_bids (incr_bid b p s c) = - p # rest"
    and "bids (incr_bid b p s c) p \<noteq> None"
  using assms by (auto simp: incr_bid_def get_best_bid_def mk_level_def Let_def)

lemma update_fields:
  "fst (update fx b t0 t1 t2) = snd (calculate_features b t1 t2)"
  "ofi_history (snd (update fx b t0 t1 t2))
     = deque_append (ofi_history fx) (fst (calculate_ofi b t1 ''1s''))"
  by (simp_all add: update_def split_beta calculate_features_ofi)

lemma sample_step:
  assumes fb: "fed_book p s0 a0 t0 b"
    and len: "length (bids_history b) \<le> 96"
    and s: "s \<noteq> 0" and t: "t0 \<le> t" "t - t0 \<le> 1"
  shows "fst (calculate_ofi (incr_bid b p s None) t ''1s'') = s - s0"
    and "fed_book p s0 a0 t0 (snd (calculate_features (incr_bid b p s None) t t))"
    and "length (bids_history (snd (calculate_features (incr_bid b p s None) t t)))
           = length (bids_history b) + 2"
proof -
  define b' where "b' = incr_bid b p s None"
  from fb obtain rest where sb: "sorted_bids b = - p # rest" and pb: "bids b p \<noteq> None"
    and ask: "snd (get_best_ask b) = a0" and ne: "bids_history b \<noteq> []"
    and hb: "h_size (hd (bids_history b)) = s0" and ha: "h_size (hd (asks_history b)) = a0"
    and al: "map h_time (bids_history b) = map h_time (asks_history b)"
    and tb: "\<forall>e\<in>set (bids_history b). t0 \<le> h_time e"
    by (auto simp: fed_book_def)
  have best: "get_best_bid b' = (p, s)" "get_best_ask b' = get_best_ask b"
    using incr_bid_best [OF sb pb s] by (simp_all add: b'_def)
  have sb': "sorted_bids b' = - p # rest" "bids b' p \<noteq> None"
    using incr_bid_best [OF sb pb s] by (simp_all add: b'_def)
  have hist: "bids_history b' = bids_history b" "asks_history b' = asks_history b"
    by (simp_all add: b'_def)
  have la: "length (asks_history b) = length (bids_history b)"
    using al by (metis length_map)
  have in_b: "\<forall>e\<in>set (bids_history b). t - h_time e \<le> 1"
    using tb t by force
  have times: "h_time ` set (asks_history b) = h_time ` set (bids_history b)"
    using al by (metis set_map)
  have in_a: "\<forall>e\<in>set (asks_history b). t - h_time e \<le> 1"
  proof
    fix e assume "e \<in> set (asks_history b)"
    then obtain e' where "e' \<in> set (bids_history b)" "h_time e' = h_time e"
      using times by (metis imageE imageI)
    with in_b show "t - h_time e \<le> 1" by metis
  qed
  have rb: "recent_entries 1 t (bids_history b) = bids_history b"
    by (rule recent_entries_all [OF in_b])
  have ra: "recent_entries 1 t (asks_history b) = asks_history b"
    by (rule recent_entries_all [OF in_a])
  have "fst (calculate_ofi b' t ''1s'') =
      (if recent_entries 1 t (bids_history b) = [] then 0
       else (s - h_size (hd (recent_entries 1 t (bids_history b))))
              - (a0 - h_size (hd (recent_entries 1 t (asks_history b)))))"
    by (rule calculate_ofi_value [where nb = "[]" and na = "[]"])
      (use best ask hist len la al in simp_all)
  then show "fst (calculate_ofi (incr_bid b p s None) t ''1s'') = s - s0"
    using ne hb ha by (simp add: rb ra b'_def)
  have l1: "length (bids_history b') < 100" "length (asks_history b') < 100"
    using len la hist by simp_all
  define b1 where "b1 = snd (calculate_ofi b' t ''1s'')"
  have h1: "bids_history b1 = bids_history b @ [\<lparr>h_price = p, h_size = s, h_time = t\<rparr>]"
      "asks_history b1 = asks_history b @
         [\<lparr>h_price = fst (get_best_ask b), h_size = a0, h_time = t\<rparr>]"
    using calculate_ofi_histories [OF l1, of t "''1s''"] best ask hist
    by (simp_all add: b1_def)
  have l2: "length (bids_history b1) < 100" "length (asks_history b1) < 100"
    using len la h1 by simp_all
  have best1: "get_best_bid b1 = (p, s)" "get_best_ask b1 = get_best_ask b"
    using best by (simp_all add: b1_def)
  define b2 where "b2 = snd (calculate_features b' t t)"
  have h2: "bids_history b2 = bids_history b @
        [\<lparr>h_price = p, h_size = s, h_time = t\<rparr>, \<lparr>h_price = p, h_size = s, h_time = t\<rparr>]"
      "asks_history b2 = asks_history b @
        [\<lparr>h_price = fst (get_best_ask b), h_size = a0, h_time = t\<rparr>,
         \<lparr>h_price = fst (get_best_ask b), h_size = a0, h_time = t\<rparr>]"
    using calculate_ofi_histories [OF l2, of t "''5s''"] best1 ask h1
    by (simp_all add: b2_def calculate_features_histories b1_def [symmetric])
  have ss: "same_sides b2 b'"
    unfolding b2_def by (rule same_sides_calculate_features)
  then have sides2: "sorted_bids b2 = - p # rest" "bids b2 p \<noteq> None"
    using sb' by (simp_all add: same_sides_def)
  have ask2: "snd (get_best_ask b2) = a0"
    using same_sides_queries(2) [OF ss] best ask by simp
  have nea: "asks_history b \<noteq> []" using ne la by (metis length_0_conv)
  show "fed_book p s0 a0 t0 (snd (calculate_features (incr_bid b p s None) t t))"
    unfolding b'_def [symmetric] b2_def [symmetric] fed_book_def
    using sides2 ask2 h2 ne nea hb ha al tb t by simp
  show "length (bids_history (snd (calculate_features (incr_bid b p s None) t t)))
           = length (bids_history b) + 2"
    unfolding b'_def [symmetric] b2_def [symmetric] by (simp add: h2)
qed


lemma feed_fed_book:
  assumes "fed_book p s0 a0 t0 b"
    and "length (bids_history b) + 2 * length ss \<le> 98"
    and "\<forall>x\<in>set ss. fst x \<noteq> 0 \<and> t0 \<le> snd x \<and> snd x - t0 \<le> 1"
    and "length (ofi_history fx) + length ss \<le> 100"
  shows "ofi_history (snd (feed_bid_sizes p ss (b, fx)))
           = ofi_history fx @ map (\<lambda>x. fst x - s0) ss"
  using assms
proof (induction ss arbitrary: b fx)
  case Nil
  then show ?case by simp
next
  case (Cons x ss)
  obtain s t where x: "x = (s, t)" by force
  from Cons.prems(3) x have st: "s \<noteq> 0" "t0 \<le> t" "t - t0 \<le> 1" by simp_all
  from Cons.prems(2) have len: "length (bids_history b) \<le> 96" by simp
  define b2 where "b2 = fst (update fx (incr_bid b p s None) t t t)"
  define fx2 where "fx2 = snd (update fx (incr_bid b p s None) t t t)"
  note step = sample_step [OF Cons.prems(1) len st]
  have fb2: "fed_book p s0 a0 t0 b2"
    using step(2) by (simp add: b2_def update_fields)
  have l2: "length (bids_history b2) + 2 * length ss \<le> 98"
    using step(3) Cons.prems(2) by (simp add: b2_def update_fields)
  have o2: "ofi_history fx2 = ofi_history fx @ [s - s0]"
    using step(1) Cons.prems(4) by (simp add: fx2_def update_fields deque_append_short)
  have r3: "\<forall>x\<in>set ss. fst x \<noteq> 0 \<and> t0 \<le> snd x \<and> snd x - t0 \<le> 1"
    using Cons.prems(3) by simp
  have l4: "length (ofi_history fx2) + length ss \<le> 100"
    using o2 Cons.prems(4) by simp
  have "feed_bid_sizes p (x # ss) (b, fx) = feed_bid_sizes p ss (b2, fx2)"
    by (simp add: x b2_def fx2_def)
  with Cons.IH [OF fb2 l2 r3 l4] o2 x show ?case by simp
qed

lemma first_sample_step:
  assumes sb: "sorted_bids b = - p # rest" and pb: "bids b p \<noteq> None"
    and empty: "bids_history b = []" "asks_history b = []"
    and s: "s \<noteq> 0"
  shows "fst (calculate_ofi (incr_bid b p s None) t ''1s'') = 0"
    and "fed_book p s (snd (get_best_ask b)) t (snd (calculate_features (incr_bid b p s None) t t))"
    and "length (bids_history (snd (calculate_features (incr_bid b p s None) t t))) = 2"
proof -
  define b' where "b' = incr_bid b p s None"
  define a0 where "a0 = snd (get_best_ask b)"
  have best: "get_best_bid b' = (p, s)" "get_best_ask b' = get_best_ask b"
    using incr_bid_best [OF sb pb s] by (simp_all add: b'_def)
  have sb': "sorted_bids b' = - p # rest" "bids b' p \<noteq> None"
    using incr_bid_best [OF sb pb s] by (simp_all add: b'_def)
  have hist: "bids_history b' = []" "asks_history b' = []"
    using empty by (simp_all add: b'_def)
  show "fst (calculate_ofi (incr_bid b p s None) t ''1s'') = 0"
    unfolding b'_def [symmetric]
    by (simp add: calculate_ofi_eq hist deque_append_def ofi_value_def recent_entries_def)
  define b1 where "b1 = snd (calculate_ofi b' t ''1s'')"
  have h1: "bids_history b1 = [\<lparr>h_price = p, h_size = s, h_time = t\<rparr>]"
      "asks_history b1 = [\<lparr>h_price = fst (get_best_ask b), h_size = a0, h_time = t\<rparr>]"
    using calculate_ofi_histories [of b' t "''1s''"] best hist
    by (simp_all add: b1_def a0_def)
  have best1: "get_best_bid b1 = (p, s)" "get_best_ask b1 = get_best_ask b"
    using best by (simp_all add: b1_def)
  define b2 where "b2 = snd (calculate_features b' t t)"
  have h2: "bids_history b2 =
        [\<lparr>h_price = p, h_size = s, h_time = t\<rparr>, \<lparr>h_price = p, h_size = s, h_time = t\<rparr>]"
      "asks_history b2 =
        [\<lparr>h_price = fst (get_best_ask b), h_size = a0, h_time = t\<rparr>,
         \<lparr>h_price = fst (get_best_ask b), h_size = a0, h_time = t\<rparr>]"
    using calculate_ofi_histories [of b1 t "''5s''"] best1 h1
    by (simp_all add: b2_def calculate_features_histories b1_def [symmetric] a0_def)
  have ss: "same_sides b2 b'"
    unfolding b2_def by (rule same_sides_calculate_features)
  then have sides2: "sorted_bids b2 = - p # rest" "bids b2 p \<noteq> None"
    using sb' by (simp_all add: same_sides_def)
  have ask2: "snd (get_best_ask b2) = a0"
    using same_sides_queries(2) [OF ss] best by (simp add: a0_def)
  show "fed_book p s (snd (get_best_ask b)) t (snd (calculate_features (incr_bid b p s None) t t))"
    unfolding b'_def [symmetric] b2_def [symmetric] a0_def [symmetric] fed_book_def
    using sides2 ask2 h2 by simp
  show "length (bids_history (snd (calculate_features (incr_bid b p s None) t t))) = 2"
    unfolding b'_def [symmetric] b2_def [symmetric] by (simp add: h2)
qed

lemma feed_fresh_book:
  assumes sb: "sorted_bids b = - p # rest" and pb: "bids b p \<noteq> None"
    and empty: "bids_history b = []" "asks_history b = []"
    and s0: "s0 \<noteq> 0"
    and len: "length ss \<le> 47"
    and ok: "\<forall>x\<in>set ss. fst x \<noteq> 0 \<and> t0 \<le> snd x \<and> snd x - t0 \<le> 1"
  shows "ofi_history (snd (feed_bid_sizes p ((s0, t0) # ss) (b, init_extractor)))
           = map (\<lambda>x. fst x - s0) ((s0, t0) # ss)"
proof -
  define b2 where "b2 = fst (update init_extractor (incr_bid b p s0 None) t0 t0 t0)"
  define fx2 where "fx2 = snd (update init_extractor (incr_bid b p s0 None) t0 t0 t0)"
  note step = first_sample_step [OF sb pb empty s0, of t0]
  have fb2: "fed_book p s0 (snd (get_best_ask b)) t0 b2"
    using step(2) by (simp add: b2_def update_fields)
  have l2: "length (bids_history b2) + 2 * length ss \<le> 98"
    using step(3) len by (simp add: b2_def update_fields)
  have o2: "ofi_history fx2 = [0]"
    using step(1) by (simp add: fx2_def update_fields deque_append_def init_extractor_def)
  have l4: "length (ofi_history fx2) + length ss \<le> 100"
    using o2 len by simp
  have "feed_bid_sizes p ((s0, t0) # ss) (b, init_extractor) = feed_bid_sizes p ss (b2, fx2)"
    by (simp add: b2_def fx2_def)
  with feed_fed_book [OF fb2 l2 ok l4] o2 show ?thesis by simp
qed

lemma trend_of_ten:
  assumes "ofi_history fx = [y0, y1, y2, y3, y4, y5, y6, y7, y8, y9]"
  shows "get_ofi_trend fx 10 =
     (if 1 / 100 < (9 * (y9 - y0) + 7 * (y8 - y1) + 5 * (y7 - y2) + 3 * (y6 - y3) + (y5 - y4)) / 165
      then ''rising''
      else if (9 * (y9 - y0) + 7 * (y8 - y1) + 5 * (y7 - y2) + 3 * (y6 - y3) + (y5 - y4)) / 165
                < - (1 / 100)
      then ''falling'' else ''stable'')"
  by (simp add: get_ofi_trend_def assms tail_slice_def polyfit_slope_def ols10)


text \<open>
  \<^bold>\<open>Claim C8, as amended.\<close> \<open>get_ofi_trend\<close> answers \<open>stable\<close> whenever fewer than
  \<open>window\<close> OFI samples exist. For a window of at least 2 that the history fills, it takes
  the least-squares slope of the last \<open>window\<close> samples against \<open>0, 1, \<dots>\<close> and answers
  \<open>rising\<close> when the slope exceeds 0.01, \<open>falling\<close> when it is below \<open>-0.01\<close> and \<open>stable\<close>
  otherwise. In particular: on a book with empty histories, feeding ten best-bid sizes each
  of which exceeds the one before by more than 0.01, the best ask unchanged and the ten
  extractor updates all within one second of the first, makes the trend over 10 samples
  \<open>rising\<close>.
\<close>

theorem C8_ofi_trend:
  "(int (length (ofi_history fx)) < window \<longrightarrow> get_ofi_trend fx window = ''stable'') \<and>
   (2 \<le> window \<and> window \<le> int (length (ofi_history fx)) \<longrightarrow>
      get_ofi_trend fx window =
        (let slope = ols_slope (drop (length (ofi_history fx) - nat window) (ofi_history fx))
         in if 1 / 100 < slope then ''rising''
            else if slope < - (1 / 100) then ''falling'' else ''stable'')) \<and>
   (sorted_bids b = - p # rest \<and> bids b p \<noteq> None \<and>
    bids_history b = [] \<and> asks_history b = [] \<and>
    0 < s0 \<and> s0 + 1 / 100 < s1 \<and> s1 + 1 / 100 < s2 \<and> s2 + 1 / 100 < s3 \<and>
    s3 + 1 / 100 < s4 \<and> s4 + 1 / 100 < s5 \<and> s5 + 1 / 100 < s6 \<and> s6 + 1 / 100 < s7 \<and>
    s7 + 1 / 100 < s8 \<and> s8 + 1 / 100 < s9 \<and>
    (\<forall>t\<in>{t1, t2, t3, t4, t5, t6, t7, t8, t9}. t0 \<le> t \<and> t - t0 \<le> 1)
    \<longrightarrow> get_ofi_trend
          (snd (feed_bid_sizes p
             [(s0, t0), (s1, t1), (s2, t2), (s3, t3), (s4, t4),
              (s5, t5), (s6, t6), (s7, t7), (s8, t8), (s9, t9)] (b, init_extractor))) 10
        = ''rising'')"
proof (intro conjI impI)
  assume "int (length (ofi_history fx)) < window"
  then show "get_ofi_trend fx window = ''stable''"
    by (simp add: get_ofi_trend_def)
next
  assume w: "2 \<le> window \<and> window \<le> int (length (ofi_history fx))"
  then have l: "\<not> length (drop (length (ofi_history fx) - nat window) (ofi_history fx)) < 2"
    by simp linarith
  from w l show "get_ofi_trend fx window =
        (let slope = ols_slope (drop (length (ofi_history fx) - nat window) (ofi_history fx))
         in if 1 / 100 < slope then ''rising''
            else if slope < - (1 / 100) then ''falling'' else ''stable'')"
    by (simp add: get_ofi_trend_def tail_slice_def polyfit_slope_def Let_def)
next
  assume h: "sorted_bids b = - p # rest \<and> bids b p \<noteq> None \<and>
    bids_history b = [] \<and> asks_history b = [] \<and>
    0 < s0 \<and> s0 + 1 / 100 < s1 \<and> s1 + 1 / 100 < s2 \<and> s2 + 1 / 100 < s3 \<and>
    s3 + 1 / 100 < s4 \<and> s4 + 1 / 100 < s5 \<and> s5 + 1 / 100 < s6 \<and> s6 + 1 / 100 < s7 \<and>
    s7 + 1 / 100 < s8 \<and> s8 + 1 / 100 < s9 \<and>
    (\<forall>t\<in>{t1, t2, t3, t4, t5, t6, t7, t8, t9}. t0 \<le> t \<and> t - t0 \<le> 1)"
  then have book: "sorted_bids b = - p # rest" "bids b p \<noteq> None"
      "bids_history b = []" "asks_history b = []"
    and inc: "0 < s0" "s0 + 1 / 100 < s1" "s1 + 1 / 100 < s2" "s2 + 1 / 100 < s3"
      "s3 + 1 / 100 < s4" "s4 + 1 / 100 < s5" "s5 + 1 / 100 < s6" "s6 + 1 / 100 < s7"
      "s7 + 1 / 100 < s8" "s8 + 1 / 100 < s9"
    and tm: "\<forall>t\<in>{t1, t2, t3, t4, t5, t6, t7, t8, t9}. t0 \<le> t \<and> t - t0 \<le> 1"
    by blast+
  from inc have nz: "s0 \<noteq> 0" by simp
  have ok: "\<forall>x\<in>set [(s1, t1), (s2, t2), (s3, t3), (s4, t4), (s5, t5), (s6, t6), (s7, t7),
      (s8, t8), (s9, t9)]. fst x \<noteq> 0 \<and> t0 \<le> snd x \<and> snd x - t0 \<le> 1"
    using inc tm by simp
  have hist: "ofi_history (snd (feed_bid_sizes p
             [(s0, t0), (s1, t1), (s2, t2), (s3, t3), (s4, t4),
              (s5, t5), (s6, t6), (s7, t7), (s8, t8), (s9, t9)] (b, init_extractor)))
      = [0, s1 - s0, s2 - s0, s3 - s0, s4 - s0, s5 - s0, s6 - s0, s7 - s0, s8 - s0, s9 - s0]"
    using feed_fresh_book [OF book nz _ ok] by simp
  have d: "9 / 100 < s9 - s0" "7 / 100 < s8 - s1" "5 / 100 < s7 - s2" "3 / 100 < s6 - s3"
      "1 / 100 < s5 - s4"
    using inc by simp_all
  have k: "165 / 100 < 9 * (s9 - s0) + 7 * (s8 - s1) + 5 * (s7 - s2) + 3 * (s6 - s3) + (s5 - s4)"
    using d by simp
  show "get_ofi_trend
          (snd (feed_bid_sizes p
             [(s0, t0), (s1, t1), (s2, t2), (s3, t3), (s4, t4),
              (s5, t5), (s6, t6), (s7, t7), (s8, t8), (s9, t9)] (b, init_extractor))) 10
        = ''rising''"
    unfolding trend_of_ten [OF hist] using k by simp
qed

lemma scenario_book_fresh:
  "sorted_bids scenario_book = - 100 # [- 99]" "bids scenario_book 100 \<noteq> None"
  "bids_history scenario_book = []" "asks_history scenario_book = []"
  by (simp_all add: scenario_book_def init_book_def)

theorem C8_witness:
  "get_ofi_trend init_extractor 10 = ''stable'' \<and>
   get_ofi_trend (init_extractor\<lparr>ofi_history := [0, - 1, - 2]\<rparr>) 3 = ''falling'' \<and>
   get_ofi_trend
     (snd (feed_bid_sizes 100
        [(1, 0), (2, 1 / 10), (3, 2 / 10), (4, 3 / 10), (5, 4 / 10),
         (6, 5 / 10), (7, 6 / 10), (8, 7 / 10), (9, 8 / 10), (10, 9 / 10)]
        (scenario_book, init_extractor))) 10 = ''rising''"
proof -
  have a: "get_ofi_trend init_extractor 10 = ''stable''"
    using C8_ofi_trend [of init_extractor 10]
    by (simp add: init_extractor_def)
  have s: "ols_slope [0, - 1, - 2] = - 1"
    by (simp add: ols_slope_def Let_def upt_rec_numeral)
  have b: "get_ofi_trend (init_extractor\<lparr>ofi_history := [0, - 1, - 2]\<rparr>) 3 = ''falling''"
    using C8_ofi_trend [of "init_extractor\<lparr>ofi_history := [0, - 1, - 2]\<rparr>" 3]
    by (simp add: s)
  have c: "get_ofi_trend
     (snd (feed_bid_sizes 100
        [(1, 0), (2, 1 / 10), (3, 2 / 10), (4, 3 / 10), (5, 4 / 10),
         (6, 5 / 10), (7, 6 / 10), (8, 7 / 10), (9, 8 / 10), (10, 9 / 10)]
        (scenario_book, init_extractor))) 10 = ''rising''"
    using C8_ofi_trend [of init_extractor 10 scenario_book 100 "[- 99]"
        1 2 3 4 5 6 7 8 9 10 "1 / 10" "2 / 10" "3 / 10" "4 / 10" "5 / 10" "6 / 10" "7 / 10"
        "8 / 10" "9 / 10" 0]
    by (simp add: scenario_book_fresh del: feed_bid_sizes.simps)
  from a b c show ?thesis by blast
qed

text \<open>The claim as stated asks only for increasing sizes. The ten sizes
  \<open>1.000, 1.001, \<dots>, 1.009\<close>, fed within one second with the best ask unchanged, give the OFI
  samples \<open>0, 0.001, \<dots>, 0.009\<close>, whose slope is 0.001: the trend is \<open>stable\<close>.\<close>

theorem C8_counterexample:
  "get_ofi_trend
     (snd (feed_bid_sizes 100
        [(1000 / 1000, 0), (1001 / 1000, 1 / 10), (1002 / 1000, 2 / 10), (1003 / 1000, 3 / 10),
         (1004 / 1000, 4 / 10), (1005 / 1000, 5 / 10), (1006 / 1000, 6 / 10),
         (1007 / 1000, 7 / 10), (1008 / 1000, 8 / 10), (1009 / 1000, 9 / 10)]
        (scenario_book, init_extractor))) 10 = ''stable''"
proof -
  have nz: "(1000 / 1000 :: real) \<noteq> 0" by simp
  have ok: "\<forall>x\<in>set [(1001 / 1000, 1 / 10), (1002 / 1000, 2 / 10), (1003 / 1000, 3 / 10),
         (1004 / 1000, 4 / 10), (1005 / 1000, 5 / 10), (1006 / 1000, 6 / 10),
         (1007 / 1000, 7 / 10), (1008 / 1000, 8 / 10), (1009 / 1000 :: real, 9 / 10 :: real)].
      fst x \<noteq> 0 \<and> 0 \<le> snd x \<and> snd x - 0 \<le> 1"
    by simp
  have hist: "ofi_history (snd (feed_bid_sizes 100
        [(1000 / 1000, 0), (1001 / 1000, 1 / 10), (1002 / 1000, 2 / 10), (1003 / 1000, 3 / 10),
         (1004 / 1000, 4 / 10), (1005 / 1000, 5 / 10), (1006 / 1000, 6 / 10),
         (1007 / 1000, 7 / 10), (1008 / 1000, 8 / 10), (1009 / 1000, 9 / 10)]
        (scenario_book, init_extractor)))
      = [0, 1 / 1000, 2 / 1000, 3 / 1000, 4 / 1000, 5 / 1000, 6 / 1000, 7 / 1000, 8 / 1000,
         9 / 1000]"
    using feed_fresh_book [OF scenario_book_fresh nz _ ok] by simp
  show ?thesis
    by (simp only: trend_of_ten [OF hist]) simp
qed

end
